theory Spec2Isabelle
  imports Main "HOL-Library.AList"
begin

section \<open>Supernode construction and tree maintenance of \<open>merged-message.js\<close>\<close>

text \<open>
  The theory embeds the class \<open>MergedMessage\<close> of
  \<open>src/chatgpt-tree-view/src/libs/mapping/merged-message.js\<close>. JavaScript values are
  typed as follows.
  \<^item> A property that the source itself guards (\<open>?.\<close>, \<open>|| []\<close>, \<open>|| ""\<close>) or that the
    source itself may leave unset is an \<open>option\<close>; \<open>None\<close> is \<open>undefined\<close>. Reading a
    property of \<open>undefined\<close> is the error \<open>TypeError\<close>.
  \<^item> A property that the source reads without any guard everywhere (\<open>id\<close>,
    \<open>childrenIds\<close> and \<open>children\<close> of a raw message, \<open>content_type\<close>, \<open>mime_type\<close>,
    \<open>asset_pointer\<close>) is taken as present.
  \<^item> An object used as a dictionary is an association list read with \<open>map_of\<close>;
    identifiers are strings.
  \<^item> \<open>throw new Error(msg)\<close> is \<open>Inl (Error msg)\<close>; a \<open>try\<close>/\<open>catch\<close> is a case
    distinction on the sum, and \<open>logError\<close> appends to a log that is returned.
\<close>

subsection \<open>Errors\<close>

datatype error = TypeError | Error string

type_synonym log_entry = "string \<times> error"

subsection \<open>Raw messages\<close>

record author =
  role :: string
  name :: "string option"

record attachment =
  att_id :: string
  mime_type :: string

text \<open>
  An entry of \<open>content.parts\<close>: a string, an object carrying \<open>asset_pointer\<close>, or a
  value whose \<open>typeof\<close> is neither \<open>'string'\<close> nor \<open>'object'\<close>.
\<close>

datatype part = StringPart string | ObjectPart (asset_pointer: string) | OtherPart

record content =
  content_type :: string
  parts :: "part list option"
  ctext :: "string option"

record aggregate =
  code :: "string option"

record metadata =
  attachments :: "attachment list option"
  aggregate_result :: "aggregate option"

datatype RawMessage = RawMessage
  (rid: string)
  (rauthor: author)
  (rcontent: "content option")
  (rmetadata: "metadata option")
  (rchildrenIds: "string list")
  (rchildren: "(string \<times> RawMessage) list")

text \<open>
  Modelled from the spec: the class of raw messages is imported by the callers of
  \<open>MergedMessage\<close> and is not part of the source file; its method \<open>isUserMessage()\<close>
  is, in the spec's words, true iff \<open>author.role == "user"\<close>.
\<close>

definition isUserMessage :: "RawMessage \<Rightarrow> bool" where
  "isUserMessage m = (role (rauthor m) = ''user'')"

subsection \<open>Content parts\<close>

datatype payload = StringPayload string | CodePayload string "string option"

text \<open>
  Modelled from the spec: the class \<open>ContentPart\<close> comes from \<open>./util-models\<close>, which is
  not part of the source file. Its constructor is called as
  \<open>new ContentPart(kind, payload, mimeType)\<close>, the third argument being optional; the
  payload is a string, or for kind \<open>code\<close> the pair of the code and the output text.
\<close>

datatype ContentPart = ContentPart
  (kind: string)
  (payload: payload)
  (mimeType: "string option")

subsection \<open>Strings\<close>

text \<open>\<open>s.includes(pat)\<close>: \<open>pat\<close> occurs somewhere in \<open>s\<close>.\<close>

fun str_includes :: "string \<Rightarrow> string \<Rightarrow> bool" where
  "str_includes [] pat = (pat = [])"
| "str_includes (c # cs) pat = (take (length pat) (c # cs) = pat \<or> str_includes cs pat)"

text \<open>\<open>s.replace(pat, rep)\<close> with a string pattern: the first occurrence only.\<close>

fun str_replace :: "string \<Rightarrow> string \<Rightarrow> string \<Rightarrow> string" where
  "str_replace [] pat rep = (if pat = [] then rep else [])"
| "str_replace (c # cs) pat rep =
     (if take (length pat) (c # cs) = pat then rep @ drop (length pat) (c # cs)
      else c # str_replace cs pat rep)"

subsection \<open>\<open>loadUserMessage\<close>\<close>

text \<open>
  \<open>rawUserMessage?.content?.parts || []\<close> and
  \<open>rawUserMessage?.metadata?.attachments || []\<close>.
\<close>

definition rawParts :: "RawMessage \<Rightarrow> part list" where
  "rawParts rawUserMessage =
     (case rcontent rawUserMessage of
        None \<Rightarrow> []
      | Some c \<Rightarrow> (case parts c of None \<Rightarrow> [] | Some ps \<Rightarrow> ps))"

definition rawAttachments :: "RawMessage \<Rightarrow> attachment list" where
  "rawAttachments rawUserMessage =
     (case rmetadata rawUserMessage of
        None \<Rightarrow> []
      | Some m \<Rightarrow> (case attachments m of None \<Rightarrow> [] | Some as \<Rightarrow> as))"

text \<open>
  \<open>rawParts.filter((part) => typeof part === 'string')\<close>: the entries that are strings,
  in their order.
\<close>

fun filterStrings :: "part list \<Rightarrow> string list" where
  "filterStrings [] = []"
| "filterStrings (StringPart s # ps) = s # filterStrings ps"
| "filterStrings (ObjectPart p # ps) = filterStrings ps"
| "filterStrings (OtherPart # ps) = filterStrings ps"

definition contentFieldChunk :: "string \<Rightarrow> ContentPart" where
  "contentFieldChunk part = ContentPart ''text'' (StringPayload part) None"

definition attachmentFieldChunk :: "attachment \<Rightarrow> ContentPart" where
  "attachmentFieldChunk a =
     ContentPart (if str_includes (mime_type a) ''image'' then ''image'' else ''file'')
       (StringPayload (att_id a)) (Some (mime_type a))"

definition loadUserMessage :: "RawMessage \<Rightarrow> error + ContentPart list" where
  "loadUserMessage rawUserMessage =
     (let filteredRawParts = filterStrings (rawParts rawUserMessage);
          contentFieldChunks = map contentFieldChunk filteredRawParts;
          attachmentFieldChunks = map attachmentFieldChunk (rawAttachments rawUserMessage)
      in Inr (attachmentFieldChunks @ contentFieldChunks))"

subsection \<open>\<open>validateAndExtractLinkedList\<close>\<close>

lemma size_rchildren:
  "map_of kvs k = Some c \<Longrightarrow> size c < Suc (size_list (size_prod (\<lambda>_. 0) size) kvs)"
  by (induction kvs) (auto split: if_splits)

lemma size_lookup: "map_of (rchildren m) k = Some c \<Longrightarrow> size c < size m"
  by (cases m) (auto dest: size_rchildren)

text \<open>
  The \<open>while\<close> loop, on the current child and the messages collected so far. The child
  read from \<open>children\<close> is a proper part of the current message, so the loop ends.
\<close>

function walk :: "RawMessage option \<Rightarrow> RawMessage list \<Rightarrow> error + RawMessage list" where
  "walk None rawMessages = Inr rawMessages"
| "walk (Some currentChild) rawMessages =
     (if isUserMessage currentChild then Inr rawMessages
      else if length (rchildrenIds currentChild) = 0 then Inr (rawMessages @ [currentChild])
      else if length (rchildrenIds currentChild) \<noteq> 1 then
        Inl (Error ''Assertion Error: Expected the assistant response branch to be linear'')
      else walk (map_of (rchildren currentChild) (rchildrenIds currentChild ! 0))
             (rawMessages @ [currentChild]))"
  by pat_completeness auto
termination
proof (relation "measure (\<lambda>(c, ms). case c of None \<Rightarrow> 0 | Some m \<Rightarrow> Suc (size m))")
  show "wf (measure (\<lambda>(c, ms). case c of None \<Rightarrow> 0 | Some m \<Rightarrow> Suc (size m)))"
    by simp
next
  fix currentChild :: RawMessage and rawMessages :: "RawMessage list"
  show "((map_of (rchildren currentChild) (rchildrenIds currentChild ! 0),
          rawMessages @ [currentChild]), (Some currentChild, rawMessages))
        \<in> measure (\<lambda>(c, ms). case c of None \<Rightarrow> 0 | Some m \<Rightarrow> Suc (size m))"
    by (auto split: option.splits dest: size_lookup)
qed

definition validateAndExtractLinkedList :: "RawMessage \<Rightarrow> string \<Rightarrow> error + RawMessage list" where
  "validateAndExtractLinkedList rawUserMessage childId =
     walk (map_of (rchildren rawUserMessage) childId) []"

subsection \<open>\<open>buildSingleAssistantMessage\<close>\<close>

text \<open>\<open>parts.forEach\<close>, pushing onto \<open>chunks\<close>.\<close>

fun forEachPart :: "part list \<Rightarrow> ContentPart list \<Rightarrow> ContentPart list" where
  "forEachPart [] chunks = chunks"
| "forEachPart (StringPart s # ps) chunks =
     forEachPart ps (chunks @ [ContentPart ''text'' (StringPayload s) None])"
| "forEachPart (ObjectPart p # ps) chunks =
     forEachPart ps
       (chunks @ [ContentPart ''image'' (StringPayload (str_replace p ''file-service://'' [])) None])"
| "forEachPart (OtherPart # ps) chunks = forEachPart ps chunks"

text \<open>\<open>rawMessage.metadata?.aggregate_result?.code || ""\<close>\<close>

definition codeOrEmpty :: "RawMessage \<Rightarrow> string" where
  "codeOrEmpty rawMessage =
     (case rmetadata rawMessage of
        None \<Rightarrow> []
      | Some m \<Rightarrow>
          (case aggregate_result m of
             None \<Rightarrow> []
           | Some r \<Rightarrow> (case code r of None \<Rightarrow> [] | Some c \<Rightarrow> if c \<noteq> [] then c else [])))"

text \<open>The body of \<open>rawMessages.forEach\<close>, for one raw message.\<close>

definition messageChunks :: "RawMessage \<Rightarrow> ContentPart list \<Rightarrow> error + ContentPart list" where
  "messageChunks rawMessage chunks =
     (case rcontent rawMessage of
        None \<Rightarrow> Inl TypeError
      | Some c \<Rightarrow>
          (let contentType = content_type c in
           if contentType = ''text'' \<or> contentType = ''multimodal_text'' then
             (case parts c of
                None \<Rightarrow> Inl TypeError
              | Some ps \<Rightarrow> Inr (forEachPart ps chunks))
           else if contentType = ''execution_output'' then
             Inr (chunks @ [ContentPart ''code'' (CodePayload (codeOrEmpty rawMessage) (ctext c)) None])
           else
             Inl (Error (''Unexpected content type when building assistant message chunks: ''
                           @ contentType))))"

fun forEachMessage :: "RawMessage list \<Rightarrow> ContentPart list \<Rightarrow> error + ContentPart list" where
  "forEachMessage [] chunks = Inr chunks"
| "forEachMessage (rawMessage # rest) chunks =
     (case messageChunks rawMessage chunks of
        Inl e \<Rightarrow> Inl e
      | Inr chunks' \<Rightarrow> forEachMessage rest chunks')"

definition buildSingleAssistantMessage :: "RawMessage list \<Rightarrow> error + ContentPart list" where
  "buildSingleAssistantMessage rawMessages = forEachMessage rawMessages []"

subsection \<open>Merged messages\<close>

text \<open>
  The value of the property \<open>children\<close>. The constructor makes it an array
  (\<open>this.children = []\<close>, then \<open>push\<close>); the tree operations read and write it by
  identifier (\<open>this.children[id]\<close>). \<open>elems\<close> is the array part (\<open>None\<close> for an object
  that is not an array), \<open>props\<close> the properties named by identifiers. Identifiers are
  message identifiers, never array indices, so the two parts do not overlap.
\<close>

datatype 'a js_object = JsObject (elems: "'a list option") (props: "(string \<times> 'a) list")

text \<open>
  The properties of \<open>this\<close> that the methods of the class read or write. \<open>parent\<close> is a
  back-reference in the source; the model keeps the parent's identifier.
\<close>

datatype MergedMessage = MergedMessage
  (mid: string)
  (parent: "string option")
  (userMessageChunks: "ContentPart list option")
  (assistantBranches: "ContentPart list list option")
  (children: "MergedMessage js_object option")
  (childrenIds: "string list option")
  (author: "author option")
  (recipient: "string option")
  (content: "content option")
  (meta: "metadata option")

subsection \<open>The constructor\<close>

text \<open>
  The callback of \<open>childrenIds.map\<close>: the chunks of the branch, and the last raw
  message of its chain for \<open>leafMessages\<close>. \<open>rawMessages[rawMessages.length - 1]\<close> is
  \<open>undefined\<close> for an empty chain.
\<close>

definition exploreBranch ::
  "RawMessage \<Rightarrow> string \<Rightarrow> error + ContentPart list \<times> RawMessage option" where
  "exploreBranch rawUserMessage childId =
     (case validateAndExtractLinkedList rawUserMessage childId of
        Inl e \<Rightarrow> Inl e
      | Inr rawMessages \<Rightarrow>
          (let lastRawMessage = (if rawMessages = [] then None else Some (last rawMessages)) in
           case buildSingleAssistantMessage rawMessages of
             Inl e \<Rightarrow> Inl e
           | Inr chunks \<Rightarrow> Inr (chunks, lastRawMessage)))"

text \<open>
  \<open>childrenIds.map\<close>, with the branches returned so far and the local \<open>leafMessages\<close>;
  an exception in one callback ends the whole \<open>map\<close>.
\<close>

fun mapBranches ::
  "RawMessage \<Rightarrow> string list \<Rightarrow> ContentPart list list \<times> RawMessage option list
   \<Rightarrow> error + ContentPart list list \<times> RawMessage option list" where
  "mapBranches rawUserMessage [] (branches, leafMessages) = Inr (branches, leafMessages)"
| "mapBranches rawUserMessage (childId # rest) (branches, leafMessages) =
     (case exploreBranch rawUserMessage childId of
        Inl e \<Rightarrow> Inl e
      | Inr (chunks, lastRawMessage) \<Rightarrow>
          mapBranches rawUserMessage rest
            (branches @ [chunks], leafMessages @ [lastRawMessage]))"

text \<open>\<open>leafChildrenIds.map((childId) => leafMessage.children[childId])\<close>\<close>

definition leafChildrenOf :: "RawMessage \<Rightarrow> RawMessage option list" where
  "leafChildrenOf leafMessage =
     map (\<lambda>childId. map_of (rchildren leafMessage) childId) (rchildrenIds leafMessage)"

text \<open>
  The two nested \<open>forEach\<close> loops of the leaf aggregation. Their state is the array
  \<open>this.children\<close> and the log; they return the state reached and the exception that
  ended them, if any. \<open>new\<close> stands for \<open>new MergedMessage(leafChild, this)\<close>.
\<close>

type_synonym build_state = "MergedMessage list \<times> log_entry list"

fun forEachLeafChild ::
  "(RawMessage \<Rightarrow> MergedMessage \<times> log_entry list) \<Rightarrow> RawMessage option list \<Rightarrow> build_state
   \<Rightarrow> build_state \<times> error option" where
  "forEachLeafChild new [] st = (st, None)"
| "forEachLeafChild new (None # rest) st = (st, Some TypeError)"
| "forEachLeafChild new (Some leafChild # rest) (cs, log) =
     (if \<not> isUserMessage leafChild then
        ((cs, log), Some (Error ''Assertion Error: Expected leaf children to be user messages''))
      else
        (case new leafChild of (m, l) \<Rightarrow> forEachLeafChild new rest (cs @ [m], log @ l)))"

fun forEachLeafMessage ::
  "(RawMessage \<Rightarrow> MergedMessage \<times> log_entry list) \<Rightarrow> RawMessage option list \<Rightarrow> build_state
   \<Rightarrow> build_state \<times> error option" where
  "forEachLeafMessage new [] st = (st, None)"
| "forEachLeafMessage new (None # rest) st = (st, Some TypeError)"
| "forEachLeafMessage new (Some leafMessage # rest) st =
     (case forEachLeafChild new (leafChildrenOf leafMessage) st of
        (st', Some e) \<Rightarrow> (st', Some e)
      | (st', None) \<Rightarrow> forEachLeafMessage new rest st')"

lemma forEachLeafChild_cong:
  assumes "\<And>c. Some c \<in> set cs \<Longrightarrow> new c = new' c"
  shows "forEachLeafChild new cs st = forEachLeafChild new' cs st"
  using assms
proof (induction new cs st rule: forEachLeafChild.induct)
  case (3 new leafChild rest cs log)
  then show ?case by (auto split: prod.splits)
qed simp_all

lemma forEachLeafMessage_cong [fundef_cong]:
  assumes "ls = ls'" and "st = st'"
    and "\<And>l c. Some l \<in> set ls' \<Longrightarrow> Some c \<in> set (leafChildrenOf l) \<Longrightarrow> new c = new' c"
  shows "forEachLeafMessage new ls st = forEachLeafMessage new' ls' st'"
  unfolding assms(1,2) using assms(3)
proof (induction ls' arbitrary: st')
  case Nil
  show ?case by simp
next
  case (Cons x rest)
  show ?case
  proof (cases x)
    case None
    then show ?thesis by simp
  next
    case (Some leafMessage)
    have eq: "forEachLeafChild new (leafChildrenOf leafMessage) st'
      = forEachLeafChild new' (leafChildrenOf leafMessage) st'"
      by (rule forEachLeafChild_cong) (rule Cons.prems, simp_all add: Some)
    have "forEachLeafMessage new rest s = forEachLeafMessage new' rest s" for s
      by (rule Cons.IH) (rule Cons.prems, simp_all)
    with eq Some show ?thesis by (simp split: prod.splits option.splits)
  qed
qed

lemma walk_size:
  assumes "walk cur acc = Inr ms"
    and "\<forall>m\<in>set acc. size m < n"
    and "\<forall>c. cur = Some c \<longrightarrow> size c < n"
  shows "\<forall>m\<in>set ms. size m < n"
  using assms
proof (induction cur acc rule: walk.induct)
  case (1 rawMessages)
  then show ?case by simp
next
  case (2 currentChild rawMessages)
  show ?case
  proof (cases "\<not> isUserMessage currentChild \<and> length (rchildrenIds currentChild) = 1")
    case True
    have "\<forall>c. map_of (rchildren currentChild) (rchildrenIds currentChild ! 0) = Some c
           \<longrightarrow> size c < n"
      using "2.prems"(3) size_lookup by fastforce
    with True 2 show ?thesis by simp
  next
    case False
    with "2.prems" show ?thesis by (auto split: if_splits)
  qed
qed

lemma exploreBranch_size:
  assumes "exploreBranch raw childId = Inr (chunks, Some l)"
  shows "size l < size raw"
proof -
  from assms obtain rawMessages where
    w: "validateAndExtractLinkedList raw childId = Inr rawMessages" and
    l: "rawMessages \<noteq> []" "l = last rawMessages"
    by (auto simp: exploreBranch_def Let_def split: sum.splits if_splits)
  have "\<forall>m\<in>set rawMessages. size m < size raw"
    using w unfolding validateAndExtractLinkedList_def
    by (rule walk_size) (auto dest: size_lookup)
  with l show ?thesis by simp
qed

lemma mapBranches_size:
  assumes "mapBranches raw ids (bs, ls) = Inr (bs', ls')"
    and "\<forall>l. Some l \<in> set ls \<longrightarrow> size l < size raw"
  shows "\<forall>l. Some l \<in> set ls' \<longrightarrow> size l < size raw"
  using assms
proof (induction ids arbitrary: bs ls)
  case Nil
  then show ?case by simp
next
  case (Cons childId rest)
  from Cons.prems(1) obtain chunks lastRawMessage where
    e: "exploreBranch raw childId = Inr (chunks, lastRawMessage)" and
    r: "mapBranches raw rest (bs @ [chunks], ls @ [lastRawMessage]) = Inr (bs', ls')"
    by (auto split: sum.splits)
  have "\<forall>l. Some l \<in> set (ls @ [lastRawMessage]) \<longrightarrow> size l < size raw"
    using Cons.prems(2) e by (auto dest: exploreBranch_size)
  with Cons.IH r show ?case by blast
qed

text \<open>
  \<open>constructor(rawUserMessage, parent)\<close>. Both \<open>try\<close> blocks catch every exception, so
  the constructor always returns; it returns the object built and what was logged.
\<close>

function (sequential) constructor :: "RawMessage \<Rightarrow> string option \<Rightarrow> MergedMessage \<times> log_entry list" where
  "constructor (RawMessage i au co me cids ch) par =
     (let rawUserMessage = RawMessage i au co me cids ch;
          (userMessageChunks, log1) =
            (case loadUserMessage rawUserMessage of
               Inr chunks \<Rightarrow> (Some chunks, [])
             | Inl e \<Rightarrow> (None, [(''Failed to load User Message: '', e)]))
      in case mapBranches rawUserMessage (rchildrenIds rawUserMessage) ([], []) of
           Inl e \<Rightarrow>
             (MergedMessage i par userMessageChunks None None None None None None None,
              log1 @ [(''Failed to load (potentially) multiple multipart Assistant Messages: '', e)])
         | Inr (branches, leafMessages) \<Rightarrow>
             (case forEachLeafMessage (\<lambda>leafChild. constructor leafChild (Some i))
                     leafMessages ([], []) of
                ((cs, log2), err) \<Rightarrow>
                  (MergedMessage i par userMessageChunks (Some branches)
                     (Some (JsObject (Some cs) [])) None None None None None,
                   log1 @ log2 @
                   (case err of
                      None \<Rightarrow> []
                    | Some e \<Rightarrow>
                        [(''Failed to load (potentially) multiple multipart Assistant Messages: '', e)]))))"
  by pat_completeness auto
termination
proof (relation "measure (\<lambda>(raw, p). size raw)")
  show "wf (measure (\<lambda>(raw, p). size raw))" by simp
next
  fix i au co me cids ch and par :: "string option" and x xa y xb xc ya l c
  assume a: "mapBranches x (rchildrenIds x) ([], []) = Inr xb"
    and x: "x = RawMessage i au co me cids ch"
    and xb: "(xc, ya) = xb"
    and l: "Some l \<in> set ya" and c: "Some c \<in> set (leafChildrenOf l)"
  from a xb have "mapBranches x (rchildrenIds x) ([], []) = Inr (xc, ya)" by simp
  then have "\<forall>l. Some l \<in> set ya \<longrightarrow> size l < size x"
    by (rule mapBranches_size) simp
  with l have "size l < size x" by blast
  moreover from c have "size c < size l"
    by (auto simp: leafChildrenOf_def dest: size_lookup [OF sym])
  ultimately show "((c, Some i), (RawMessage i au co me cids ch, par)) \<in> measure (\<lambda>(raw, p). size raw)"
    using x by simp
qed

subsection \<open>\<open>deleteChildMessageById\<close>\<close>

text \<open>
  Reading, writing and deleting a property named by an identifier. A property written
  with the value \<open>undefined\<close> reads as \<open>undefined\<close> afterwards, like a property that
  is not there; the model removes it.
\<close>

definition getProp :: "string \<Rightarrow> 'a js_object \<Rightarrow> 'a option" where
  "getProp k obj = map_of (props obj) k"

definition setProp :: "string \<Rightarrow> 'a option \<Rightarrow> 'a js_object \<Rightarrow> 'a js_object" where
  "setProp k v obj =
     JsObject (elems obj)
       (case v of Some x \<Rightarrow> AList.update k x (props obj) | None \<Rightarrow> AList.delete k (props obj))"

definition deleteProp :: "string \<Rightarrow> 'a js_object \<Rightarrow> 'a js_object" where
  "deleteProp k obj = JsObject (elems obj) (AList.delete k (props obj))"

text \<open>\<open>this\<close> with \<open>childrenIds\<close> and \<open>children\<close> assigned.\<close>

definition withChildren ::
  "MergedMessage \<Rightarrow> string list \<Rightarrow> MergedMessage js_object \<Rightarrow> MergedMessage" where
  "withChildren this ids obj =
     MergedMessage (mid this) (parent this) (userMessageChunks this) (assistantBranches this)
       (Some obj) (Some ids) (author this) (recipient this) (content this) (meta this)"

text \<open>
  \<open>child.childrenIds.forEach\<close> of the base case: each identifier is pushed onto
  \<open>this.childrenIds\<close> and \<open>this.children[childId] = child.children[childId]\<close>.
\<close>

fun promote ::
  "string list \<Rightarrow> MergedMessage js_object \<Rightarrow> string list \<times> MergedMessage js_object
   \<Rightarrow> string list \<times> MergedMessage js_object" where
  "promote [] childChildren st = st"
| "promote (childId # rest) childChildren (ids, obj) =
     promote rest childChildren
       (ids @ [childId], setProp childId (getProp childId childChildren) obj)"

text \<open>
  The base case, entered when \<open>this.childrenIds\<close> (here \<open>ids\<close>) includes \<open>id\<close>. An
  exception is \<open>Inl\<close>; the object it leaves half-updated is not kept.
\<close>

definition deleteBaseCase :: "MergedMessage \<Rightarrow> string list \<Rightarrow> string \<Rightarrow> error + MergedMessage" where
  "deleteBaseCase this ids i =
     (case children this of
        None \<Rightarrow> Inl TypeError
      | Some obj \<Rightarrow>
          (case getProp i obj of
             None \<Rightarrow> Inl TypeError
           | Some child \<Rightarrow>
               (case childrenIds child of
                  None \<Rightarrow> Inl TypeError
                | Some cids \<Rightarrow>
                    (case (if length cids > 0 then
                             (case children child of
                                None \<Rightarrow> Inl TypeError
                              | Some childChildren \<Rightarrow> Inr (promote cids childChildren (ids, obj)))
                           else Inr (ids, obj)) of
                       Inl e \<Rightarrow> Inl e
                     | Inr (ids', obj') \<Rightarrow>
                         Inr (withChildren this (filter (\<lambda>childId. childId \<noteq> i) ids')
                                (deleteProp i obj'))))))"

text \<open>
  The method recurses into the children, which it changes in place; the model replaces
  each child by the changed one. \<open>fuel\<close> bounds the depth of the recursion: \<open>None\<close>
  means that a call into a child was needed beyond the bound. The base case and a call
  without \<open>recurse\<close> use no fuel.
\<close>

fun deleteChildMessageById ::
  "nat \<Rightarrow> MergedMessage \<Rightarrow> string \<Rightarrow> bool \<Rightarrow> (error + MergedMessage) option"
and forEachChildDelete ::
  "nat \<Rightarrow> string list \<Rightarrow> MergedMessage js_object option \<Rightarrow> string
   \<Rightarrow> (error + MergedMessage js_object option) option" where
  "deleteChildMessageById fuel this i recurse =
     (case childrenIds this of
        None \<Rightarrow> Some (Inl TypeError)
      | Some ids \<Rightarrow>
          if i \<in> set ids then Some (deleteBaseCase this ids i)
          else if recurse then
            (case forEachChildDelete fuel ids (children this) i of
               None \<Rightarrow> None
             | Some (Inl e) \<Rightarrow> Some (Inl e)
             | Some (Inr cs) \<Rightarrow>
                 Some (Inr (MergedMessage (mid this) (parent this) (userMessageChunks this)
                              (assistantBranches this) cs (Some ids) (author this)
                              (recipient this) (content this) (meta this))))
          else Some (Inr this))"
| "forEachChildDelete fuel [] cs i = Some (Inr cs)"
| "forEachChildDelete fuel (childId # rest) cs i =
     (case cs of
        None \<Rightarrow> Some (Inl TypeError)
      | Some obj \<Rightarrow>
          (case getProp childId obj of
             None \<Rightarrow> Some (Inl TypeError)
           | Some child \<Rightarrow>
               (case fuel of
                  0 \<Rightarrow> None
                | Suc fuel' \<Rightarrow>
                    (case deleteChildMessageById fuel' child i True of
                       None \<Rightarrow> None
                     | Some (Inl e) \<Rightarrow> Some (Inl e)
                     | Some (Inr child') \<Rightarrow>
                         forEachChildDelete fuel rest
                           (Some (setProp childId (Some child') obj)) i))))"

subsection \<open>\<open>mergeSubsequentAssistantMessages\<close>\<close>

definition mergeSubsequentAssistantMessages :: "MergedMessage \<Rightarrow> (error + MergedMessage) option" where
  "mergeSubsequentAssistantMessages this =
     (case author this of
        None \<Rightarrow> Some (Inl TypeError)
      | Some a \<Rightarrow>
          if role a = ''tool'' \<and> name a = Some ''dalle.text2im'' then
            (case childrenIds this of
               None \<Rightarrow> Some (Inl TypeError)
             | Some ids \<Rightarrow>
                 if length ids \<noteq> 1 then
                   Some (Inl (Error ''Assertion Error: Expected the dalle message only has one child''))
                 else
                   (let childId = ids ! 0 in
                    case children this of
                      None \<Rightarrow> Some (Inl TypeError)
                    | Some obj \<Rightarrow>
                        (case getProp childId obj of
                           None \<Rightarrow> Some (Inl TypeError)
                         | Some assistantMessage \<Rightarrow>
                             (case author assistantMessage of
                                None \<Rightarrow> Some (Inl TypeError)
                              | Some aa \<Rightarrow>
                                  if role aa \<noteq> ''assistant'' then
                                    Some (Inl (Error ''Assertion Error: Expected the child of the Dall-E message to be an Assistant message''))
                                  else
                                    (case content this of
                                       None \<Rightarrow> Some (Inl TypeError)
                                     | Some c \<Rightarrow>
                                         (case parts c of
                                            None \<Rightarrow> Some (Inl TypeError)
                                          | Some ps \<Rightarrow>
                                              (case content assistantMessage of
                                                 None \<Rightarrow> Some (Inl TypeError)
                                               | Some ac \<Rightarrow>
                                                   (case parts ac of
                                                      None \<Rightarrow> Some (Inl TypeError)
                                                    | Some qs \<Rightarrow>
                                                        deleteChildMessageById 0
                                                          (MergedMessage (mid this) (parent this)
                                                             (userMessageChunks this)
                                                             (assistantBranches this)
                                                             (children this) (childrenIds this)
                                                             (author assistantMessage)
                                                             (recipient this)
                                                             (Some (c\<lparr>parts := Some (ps @ qs)\<rparr>))
                                                             (meta assistantMessage))
                                                          childId False))))))))
          else if role a = ''assistant'' \<and> recipient this = Some ''python'' then
            (case childrenIds this of
               None \<Rightarrow> Some (Inl TypeError)
             | Some ids \<Rightarrow>
                 if length ids \<noteq> 1 then
                   Some (Inl (Error ''Assertion Error: Expected the child of the code block message to only have one child''))
                 else Some (Inr this))
          else
            Some (Inl (Error ''Assertion Error: Unexpected entry message for Assistant Message Merging'')))"

section \<open>The walk of a branch, in the words of the specification\<close>

text \<open>
  The messages that the walk from a child visits: it follows the single child of the
  current message while that message is not a human turn. The list includes the human
  turn that ends the walk, when there is one.
\<close>

function visited :: "RawMessage option \<Rightarrow> RawMessage list" where
  "visited None = []"
| "visited (Some m) =
     m # (if \<not> isUserMessage m \<and> length (rchildrenIds m) = 1
          then visited (map_of (rchildren m) (rchildrenIds m ! 0))
          else [])"
  by pat_completeness auto
termination
proof (relation "measure (\<lambda>c. case c of None \<Rightarrow> 0 | Some m \<Rightarrow> Suc (size m))")
  show "wf (measure (\<lambda>c. case c of None \<Rightarrow> 0 | Some m \<Rightarrow> Suc (size m)))"
    by simp
next
  fix m :: RawMessage
  show "(map_of (rchildren m) (rchildrenIds m ! 0), Some m)
        \<in> measure (\<lambda>c. case c of None \<Rightarrow> 0 | Some m \<Rightarrow> Suc (size m))"
    by (auto split: option.splits dest: size_lookup)
qed

text \<open>
  The assistant reply chain from a child: the non-human messages among the visited
  ones.
\<close>

definition chain :: "RawMessage \<Rightarrow> string \<Rightarrow> RawMessage list" where
  "chain raw childId =
     filter (\<lambda>m. \<not> isUserMessage m) (visited (map_of (rchildren raw) childId))"

text \<open>A non-human message with more than one child.\<close>

definition nonLinear :: "RawMessage \<Rightarrow> bool" where
  "nonLinear m = (\<not> isUserMessage m \<and> length (rchildrenIds m) > 1)"

section \<open>Notions used in the statements\<close>

text \<open>
  A message that the chunk conversion accepts, the number of chunks it yields, the
  outcome of one branch of a human turn, and the chunks of the human turn itself.
\<close>

definition convertible :: "RawMessage \<Rightarrow> bool" where
  "convertible m =
     (case rcontent m of
        None \<Rightarrow> False
      | Some c \<Rightarrow>
          content_type c = ''execution_output''
          \<or> ((content_type c = ''text'' \<or> content_type c = ''multimodal_text'') \<and> parts c \<noteq> None))"

definition chunkCount :: "RawMessage \<Rightarrow> nat" where
  "chunkCount m =
     (case rcontent m of
        None \<Rightarrow> 0
      | Some c \<Rightarrow>
          if content_type c = ''execution_output'' then 1
          else (case parts c of
                  None \<Rightarrow> 0
                | Some ps \<Rightarrow> length (filter (\<lambda>p. p \<noteq> OtherPart) ps)))"

definition branchChunks :: "RawMessage \<Rightarrow> string \<Rightarrow> ContentPart list" where
  "branchChunks raw k = (case exploreBranch raw k of Inr (chunks, l) \<Rightarrow> chunks | Inl e \<Rightarrow> [])"

definition branchLeaf :: "RawMessage \<Rightarrow> string \<Rightarrow> RawMessage option" where
  "branchLeaf raw k = (case exploreBranch raw k of Inr (chunks, l) \<Rightarrow> l | Inl e \<Rightarrow> None)"

definition branchOk :: "RawMessage \<Rightarrow> string \<Rightarrow> bool" where
  "branchOk raw k = (case exploreBranch raw k of Inr r \<Rightarrow> True | Inl e \<Rightarrow> False)"

definition userChunks :: "RawMessage \<Rightarrow> ContentPart list" where
  "userChunks raw =
     map attachmentFieldChunk (rawAttachments raw)
     @ map contentFieldChunk (filterStrings (rawParts raw))"

text \<open>
  The invariant of the children of a merged message: \<open>childrenIds\<close> and \<open>children\<close> are
  both set, every identifier of \<open>childrenIds\<close> names an entry of \<open>children\<close>, and every
  entry of \<open>children\<close> is named by an identifier of \<open>childrenIds\<close> (so \<open>children\<close>
  holds no array element).
\<close>

definition childrenConsistent :: "MergedMessage \<Rightarrow> bool" where
  "childrenConsistent this =
     (case childrenIds this of
        None \<Rightarrow> False
      | Some ids \<Rightarrow>
          (case children this of
             None \<Rightarrow> False
           | Some obj \<Rightarrow>
               (\<forall>k\<in>set ids. getProp k obj \<noteq> None)
               \<and> (\<forall>k\<in>set (map fst (props obj)). k \<in> set ids)
               \<and> (elems obj = None \<or> elems obj = Some [])))"

section \<open>Example conversations\<close>

definition userAuthor :: author where
  "userAuthor = \<lparr>role = ''user'', name = None\<rparr>"

definition assistantAuthor :: author where
  "assistantAuthor = \<lparr>role = ''assistant'', name = None\<rparr>"

definition textContent :: "part list \<Rightarrow> content" where
  "textContent ps = \<lparr>content_type = ''text'', parts = Some ps, ctext = None\<rparr>"

text \<open>A user message with neither \<open>content\<close> nor \<open>metadata\<close>.\<close>

definition bareUser :: RawMessage where
  "bareUser = RawMessage ''u0'' userAuthor None None [] []"


text \<open>The specification's example: a question answered by one assistant message.\<close>

definition answer4 :: RawMessage where
  "answer4 = RawMessage ''a1'' assistantAuthor (Some (textContent [StringPart ''4''])) None [] []"

definition question :: RawMessage where
  "question =
     RawMessage ''u1'' userAuthor (Some (textContent [StringPart ''What is 2+2?''])) None
       [''a1''] [(''a1'', answer4)]"

text \<open>
  A human turn answered twice: by a message with two parts that is followed by the next
  human turn, and by \<open>answer4\<close>.
\<close>

definition followUp :: RawMessage where
  "followUp = RawMessage ''u2'' userAuthor (Some (textContent [StringPart ''more''])) None [] []"

definition twoParts :: RawMessage where
  "twoParts =
     RawMessage ''b1'' assistantAuthor (Some (textContent [StringPart ''x'', StringPart ''y'']))
       None [''u2''] [(''u2'', followUp)]"

definition regenUser :: RawMessage where
  "regenUser =
     RawMessage ''u3'' userAuthor (Some (textContent [StringPart ''q''])) None
       [''b1'', ''a1''] [(''b1'', twoParts), (''a1'', answer4)]"

text \<open>An assistant message whose only child identifier has no entry in \<open>children\<close>.\<close>

definition dangling :: RawMessage where
  "dangling =
     RawMessage ''d1'' assistantAuthor (Some (textContent [StringPart ''z''])) None [''x''] []"

definition danglingUser :: RawMessage where
  "danglingUser =
     RawMessage ''u6'' userAuthor (Some (textContent [StringPart ''q''])) None
       [''d1''] [(''d1'', dangling)]"

text \<open>A code execution result, and a message of a content type that is not converted.\<close>

definition execOut :: RawMessage where
  "execOut =
     RawMessage ''e1'' \<lparr>role = ''tool'', name = Some ''python''\<rparr>
       (Some \<lparr>content_type = ''execution_output'', parts = None, ctext = Some ''4''\<rparr>)
       (Some \<lparr>attachments = None, aggregate_result = Some \<lparr>code = Some ''print(2+2)''\<rparr>\<rparr>)
       [] []"

definition quoteMessage :: RawMessage where
  "quoteMessage =
     RawMessage ''s1'' \<lparr>role = ''tool'', name = Some ''browser''\<rparr>
       (Some \<lparr>content_type = ''tether_quote'', parts = None, ctext = Some ''q''\<rparr>)
       None [] []"

text \<open>
  A human turn with three branches: \<open>twoParts\<close>, a message with two children, and
  \<open>answer4\<close>.
\<close>

definition forked :: RawMessage where
  "forked =
     RawMessage ''bad'' assistantAuthor (Some (textContent [StringPart ''x''])) None
       [''u2'', ''a1''] [(''u2'', followUp), (''a1'', answer4)]"

definition forkedUser :: RawMessage where
  "forkedUser =
     RawMessage ''u4'' userAuthor (Some (textContent [StringPart ''q''])) None
       [''b1'', ''bad'', ''a1''] [(''b1'', twoParts), (''bad'', forked), (''a1'', answer4)]"

text \<open>
  A human turn with three children: \<open>twoParts\<close>, the human turn \<open>followUp\<close> itself, and
  an assistant message followed by a further human turn.
\<close>

definition lastUser :: RawMessage where
  "lastUser = RawMessage ''u8'' userAuthor (Some (textContent [StringPart ''bye''])) None [] []"

definition thirdReply :: RawMessage where
  "thirdReply =
     RawMessage ''c1'' assistantAuthor (Some (textContent [StringPart ''w''])) None
       [''u8''] [(''u8'', lastUser)]"

definition emptyChainUser :: RawMessage where
  "emptyChainUser =
     RawMessage ''u7'' userAuthor (Some (textContent [StringPart ''q''])) None
       [''b1'', ''u2'', ''c1''] [(''b1'', twoParts), (''u2'', followUp), (''c1'', thirdReply)]"

text \<open>
  A human turn whose children are \<open>twoParts\<close>, the human turn \<open>followUp\<close> itself and
  the message \<open>forked\<close> with two children; and a human turn whose children are
  \<open>dangling\<close> and the human turn \<open>followUp\<close> itself.
\<close>

definition emptyChainForkedUser :: RawMessage where
  "emptyChainForkedUser =
     RawMessage ''u9'' userAuthor (Some (textContent [StringPart ''q''])) None
       [''b1'', ''u2'', ''bad''] [(''b1'', twoParts), (''u2'', followUp), (''bad'', forked)]"

definition danglingEmptyUser :: RawMessage where
  "danglingEmptyUser =
     RawMessage ''u10'' userAuthor (Some (textContent [StringPart ''q''])) None
       [''d1'', ''u2''] [(''d1'', dangling), (''u2'', followUp)]"

text \<open>
  A tree of merged messages: \<open>P\<close> has the children \<open>A\<close>, \<open>X\<close> and \<open>B\<close>; \<open>X\<close> has the
  children \<open>Y\<close> and \<open>Z\<close>; \<open>Y\<close> has the child \<open>W\<close>.
\<close>

definition supernode :: "string \<Rightarrow> string list \<Rightarrow> (string \<times> MergedMessage) list \<Rightarrow> MergedMessage" where
  "supernode i ids kvs =
     MergedMessage i None (Some []) (Some []) (Some (JsObject None kvs)) (Some ids)
       None None None None"

definition deepY :: MergedMessage where
  "deepY = supernode ''Y'' [''W''] [(''W'', supernode ''W'' [] [])]"

definition targetX :: MergedMessage where
  "targetX = supernode ''X'' [''Y'', ''Z''] [(''Y'', deepY), (''Z'', supernode ''Z'' [] [])]"

definition parentP :: MergedMessage where
  "parentP =
     supernode ''P'' [''A'', ''X'', ''B'']
       [(''A'', supernode ''A'' [] []), (''X'', targetX), (''B'', supernode ''B'' [] [])]"

text \<open>
  An image generation message with one child, an assistant message that has a child of
  its own.
\<close>

definition dalleNode :: MergedMessage where
  "dalleNode =
     MergedMessage ''t1'' None None None
       (Some (JsObject None
          [(''m1'',
            MergedMessage ''m1'' None None None
              (Some (JsObject None [(''n1'', supernode ''n1'' [] [])])) (Some [''n1''])
              (Some \<lparr>role = ''assistant'', name = None\<rparr>) None
              (Some \<lparr>content_type = ''text'', parts = Some [StringPart ''Here it is''],
                     ctext = None\<rparr>)
              (Some \<lparr>attachments = None, aggregate_result = None\<rparr>))]))
       (Some [''m1''])
       (Some \<lparr>role = ''tool'', name = Some ''dalle.text2im''\<rparr>) None
       (Some \<lparr>content_type = ''multimodal_text'', parts = Some [ObjectPart ''file-service://i1''],
              ctext = None\<rparr>)
       None"

section \<open>Human content extraction\<close>

lemma forEachLeafChild_log:
  "forEachLeafChild new cs (ms, log) = ((ms', log'), err) \<Longrightarrow>
   set log' \<subseteq> set log \<union> (\<Union>c\<in>{c. Some c \<in> set cs}. set (snd (new c)))"
proof (induction cs arbitrary: ms log)
  case Nil
  then show ?case by simp
next
  case (Cons x rest)
  show ?case
  proof (cases x)
    case None
    with Cons.prems show ?thesis by simp
  next
    case (Some c)
    show ?thesis
    proof (cases "isUserMessage c")
      case False
      with Some Cons.prems show ?thesis by simp
    next
      case True
      obtain m l where n: "new c = (m, l)" by (cases "new c")
      with True Some Cons.prems
      have "forEachLeafChild new rest (ms @ [m], log @ l) = ((ms', log'), err)" by simp
      from Cons.IH [OF this] have "set log' \<subseteq> set log \<union> set (snd (new c)) \<union>
          (\<Union>c\<in>{c. Some c \<in> set rest}. set (snd (new c)))"
        using n by simp
      then show ?thesis unfolding Some by auto
    qed
  qed
qed

lemma forEachLeafMessage_log:
  "forEachLeafMessage new ls (ms, log) = ((ms', log'), err) \<Longrightarrow>
   set log' \<subseteq> set log \<union>
     (\<Union>c\<in>{c. \<exists>l. Some l \<in> set ls \<and> Some c \<in> set (leafChildrenOf l)}. set (snd (new c)))"
proof (induction ls arbitrary: ms log)
  case Nil
  then show ?case by simp
next
  case (Cons x rest)
  show ?case
  proof (cases x)
    case None
    with Cons.prems show ?thesis by simp
  next
    case (Some leaf)
    obtain ms1 log1 err1 where
      f: "forEachLeafChild new (leafChildrenOf leaf) (ms, log) = ((ms1, log1), err1)"
      by (metis prod.exhaust)
    note s1 = forEachLeafChild_log [OF f]
    show ?thesis
    proof (cases err1)
      case (Some e)
      with f \<open>x = Some leaf\<close> Cons.prems have "log' = log1" by simp
      with s1 \<open>x = Some leaf\<close> show ?thesis by auto
    next
      case None
      with f \<open>x = Some leaf\<close> Cons.prems
      have "forEachLeafMessage new rest (ms1, log1) = ((ms', log'), err)" by simp
      from Cons.IH [OF this] s1 \<open>x = Some leaf\<close> show ?thesis by auto
    qed
  qed
qed

lemma constructor_log_user:
  "\<forall>entry\<in>set (snd (constructor raw p)). fst entry \<noteq> ''Failed to load User Message: ''"
proof (induction raw p rule: constructor.induct)
  case (1 i au co me cids ch par)
  let ?raw = "RawMessage i au co me cids ch"
  show ?case
  proof (cases "mapBranches ?raw cids ([], [])")
    case (Inl e)
    then show ?thesis by (simp add: loadUserMessage_def Let_def)
  next
    case (Inr r)
    obtain bs ls where r: "r = (bs, ls)" by (cases r)
    obtain ms' log' err where
      f: "forEachLeafMessage (\<lambda>leafChild. constructor leafChild (Some i)) ls ([], []) = ((ms', log'), err)"
      by (metis prod.exhaust)
    obtain u lg where l1: "(u, lg) = (case loadUserMessage ?raw of
               Inl e \<Rightarrow> (None, [(''Failed to load User Message: '', e)])
             | Inr chunks \<Rightarrow> (Some chunks, []))"
      by (metis prod.exhaust)
    have mb: "mapBranches ?raw (rchildrenIds ?raw) ([], []) = Inr r"
      using Inr by simp
    have ih: "\<forall>entry\<in>set (snd (constructor c (Some i))). fst entry \<noteq> ''Failed to load User Message: ''"
      if "Some l \<in> set ls" "Some c \<in> set (leafChildrenOf l)" for l c
      by (rule "1.IH" [OF refl refl l1 mb r [symmetric] that])
    from forEachLeafMessage_log [OF f] ih
    have "\<forall>entry\<in>set log'. fst entry \<noteq> ''Failed to load User Message: ''"
      by fastforce
    with Inr r f show ?thesis
      by (auto simp: loadUserMessage_def Let_def split: option.splits)
  qed
qed



text \<open>
  C9. \<open>loadUserMessage\<close> never throws. When \<open>content\<close> or \<open>content.parts\<close> is absent the
  text chunks are empty and the result is the attachment chunks; when \<open>metadata\<close> or
  \<open>metadata.attachments\<close> is absent the result is the text chunks. The constructor
  stores the result in \<open>userMessageChunks\<close> and never logs
  \<open>Failed to load User Message\<close>.
\<close>

theorem loadUserMessage_missing_fields:
  "(rcontent raw = None \<or> (\<exists>c. rcontent raw = Some c \<and> parts c = None)
      \<longrightarrow> loadUserMessage raw = Inr (map attachmentFieldChunk (rawAttachments raw)))
   \<and> (rmetadata raw = None \<or> (\<exists>m. rmetadata raw = Some m \<and> attachments m = None)
      \<longrightarrow> loadUserMessage raw = Inr (map contentFieldChunk (filterStrings (rawParts raw))))
   \<and> (\<exists>chunks. loadUserMessage raw = Inr chunks
         \<and> userMessageChunks (fst (constructor raw p)) = Some chunks)
   \<and> (\<forall>entry\<in>set (snd (constructor raw p)). fst entry \<noteq> ''Failed to load User Message: '')"
proof -
  have "userMessageChunks (fst (constructor raw p)) =
     Some (map attachmentFieldChunk (rawAttachments raw)
           @ map contentFieldChunk (filterStrings (rawParts raw)))"
    by (cases raw) (simp add: loadUserMessage_def Let_def split: sum.splits prod.splits)
  then show ?thesis
    using constructor_log_user [of raw p]
    by (auto simp: loadUserMessage_def rawParts_def rawAttachments_def)
qed

theorem loadUserMessage_missing_fields_witness:
  "loadUserMessage bareUser = Inr []
   \<and> userMessageChunks (fst (constructor bareUser None)) = Some []
   \<and> snd (constructor bareUser None) = []"
  using loadUserMessage_missing_fields [of bareUser None]
  by (simp add: bareUser_def userAuthor_def rawAttachments_def rawParts_def
      loadUserMessage_def Let_def)

section \<open>Branch discovery\<close>

lemma walk_visited:
  "walk cur acc =
     (if \<exists>m\<in>set (visited cur). nonLinear m then
        Inl (Error ''Assertion Error: Expected the assistant response branch to be linear'')
      else Inr (acc @ filter (\<lambda>m. \<not> isUserMessage m) (visited cur)))"
proof (induction cur acc rule: walk.induct)
  case (1 rawMessages)
  show ?case by simp
next
  case (2 c acc)
  show ?case
  proof (cases "\<not> isUserMessage c \<and> length (rchildrenIds c) = 1")
    case True
    have v: "visited (Some c) = c # visited (map_of (rchildren c) (rchildrenIds c ! 0))"
      using True by simp
    have nl: "\<not> nonLinear c" using True by (simp add: nonLinear_def)
    from True 2 show ?thesis unfolding v by (simp add: nl)
  next
    case False
    then show ?thesis
      by (cases "rchildrenIds c") (auto simp: nonLinear_def)
  qed
qed

lemma visited_last:
  "visited cur \<noteq> [] \<Longrightarrow>
     isUserMessage (last (visited cur)) \<or> rchildrenIds (last (visited cur)) = []
     \<or> length (rchildrenIds (last (visited cur))) > 1
     \<or> map_of (rchildren (last (visited cur))) (rchildrenIds (last (visited cur)) ! 0) = None"
proof (induction cur rule: visited.induct)
  case 1
  then show ?case by simp
next
  case (2 m)
  show ?case
  proof (cases "\<not> isUserMessage m \<and> length (rchildrenIds m) = 1")
    case True
    have v: "visited (Some m) = m # visited (map_of (rchildren m) (rchildrenIds m ! 0))"
      using True by simp
    show ?thesis
    proof (cases "map_of (rchildren m) (rchildrenIds m ! 0)")
      case None
      then show ?thesis unfolding v by simp
    next
      case (Some d)
      then have ne: "visited (map_of (rchildren m) (rchildrenIds m ! 0)) \<noteq> []" by simp
      have ne': "visited (map_of (rchildren m) (rchildrenIds m ! 0)) \<noteq> []"
        using ne True by simp
      from "2.IH" [OF True ne'] True
      show ?thesis unfolding v using ne by simp
    qed
  next
    case False
    then show ?thesis
      by (cases "rchildrenIds m") auto
  qed
qed

lemma visited_links:
  "Suc j < length (visited cur) \<Longrightarrow>
     \<not> isUserMessage (visited cur ! j) \<and> length (rchildrenIds (visited cur ! j)) = 1
     \<and> map_of (rchildren (visited cur ! j)) (rchildrenIds (visited cur ! j) ! 0)
         = Some (visited cur ! Suc j)"
proof (induction cur arbitrary: j rule: visited.induct)
  case 1
  then show ?case by simp
next
  case (2 m)
  show ?case
  proof (cases "\<not> isUserMessage m \<and> length (rchildrenIds m) = 1")
    case True
    let ?next = "map_of (rchildren m) (rchildrenIds m ! 0)"
    have v: "visited (Some m) = m # visited ?next"
      using True by simp
    from "2.prems" have len: "j < length (visited ?next)" unfolding v by simp
    show ?thesis
    proof (cases j)
      case 0
      from len obtain d where d: "?next = Some d" by (cases ?next) auto
      with 0 True show ?thesis unfolding v by simp
    next
      case (Suc j')
      with "2.prems" have "Suc j' < length (visited ?next)" unfolding v by simp
      then have "Suc j' < length (visited (map_of (rchildren m) (rchildrenIds m ! 0)))"
        using True by simp
      from "2.IH" [OF True this] True Suc show ?thesis unfolding v by simp
    qed
  next
    case False
    with "2.prems" show ?thesis
      by (auto split: if_splits)
  qed
qed

text \<open>
  C5, as the code has it. The chain extracted from a child is the non-human messages
  visited by following single-child links, in the order of the visit; every message
  but the last visited is non-human with exactly one child, which is the next message
  visited; the extraction throws exactly when a visited non-human message has more than
  one child. The walk stops at a human turn, at a message without child identifiers,
  or at a message whose single child identifier has no entry in \<open>children\<close>.
\<close>

theorem validateAndExtractLinkedList_visited:
  "validateAndExtractLinkedList raw childId =
     (if \<exists>m\<in>set (visited (map_of (rchildren raw) childId)). nonLinear m then
        Inl (Error ''Assertion Error: Expected the assistant response branch to be linear'')
      else Inr (filter (\<lambda>m. \<not> isUserMessage m) (visited (map_of (rchildren raw) childId))))
   \<and> (\<forall>j. Suc j < length (visited (map_of (rchildren raw) childId)) \<longrightarrow>
         \<not> isUserMessage (visited (map_of (rchildren raw) childId) ! j)
         \<and> length (rchildrenIds (visited (map_of (rchildren raw) childId) ! j)) = 1
         \<and> map_of (rchildren (visited (map_of (rchildren raw) childId) ! j))
              (rchildrenIds (visited (map_of (rchildren raw) childId) ! j) ! 0)
             = Some (visited (map_of (rchildren raw) childId) ! Suc j))
   \<and> (visited (map_of (rchildren raw) childId) \<noteq> [] \<longrightarrow>
         isUserMessage (last (visited (map_of (rchildren raw) childId)))
         \<or> rchildrenIds (last (visited (map_of (rchildren raw) childId))) = []
         \<or> length (rchildrenIds (last (visited (map_of (rchildren raw) childId)))) > 1
         \<or> map_of (rchildren (last (visited (map_of (rchildren raw) childId))))
              (rchildrenIds (last (visited (map_of (rchildren raw) childId))) ! 0) = None)"
  using walk_visited [of "map_of (rchildren raw) childId" "[]"]
    visited_links [of _ "map_of (rchildren raw) childId"]
    visited_last [of "map_of (rchildren raw) childId"]
  unfolding validateAndExtractLinkedList_def by simp

theorem validateAndExtractLinkedList_visited_witness:
  "validateAndExtractLinkedList regenUser ''b1'' = Inr [twoParts]
   \<and> visited (map_of (rchildren regenUser) ''b1'') = [twoParts, followUp]"
  using validateAndExtractLinkedList_visited [of regenUser "''b1''"]
  by (simp add: regenUser_def twoParts_def followUp_def answer4_def userAuthor_def
      assistantAuthor_def isUserMessage_def nonLinear_def)

text \<open>
  The walk from \<open>dangling\<close> returns normally, and the message at which it stops is
  neither a human turn nor a message without children: it has one child identifier.
\<close>

theorem walk_stops_at_dangling_child:
  "validateAndExtractLinkedList danglingUser ''d1'' = Inr [dangling]
   \<and> visited (map_of (rchildren danglingUser) ''d1'') = [dangling]
   \<and> \<not> isUserMessage dangling
   \<and> rchildrenIds dangling = [''x'']"
  by (simp add: validateAndExtractLinkedList_def danglingUser_def dangling_def
      assistantAuthor_def isUserMessage_def)

section \<open>Chunk conversion\<close>

lemma forEachMessage_append:
  "forEachMessage (xs @ ys) acc =
     (case forEachMessage xs acc of Inl e \<Rightarrow> Inl e | Inr acc' \<Rightarrow> forEachMessage ys acc')"
  by (induction xs arbitrary: acc) (auto split: sum.splits)

text \<open>
  C7. A message of content type \<open>execution_output\<close> adds exactly one chunk of kind
  \<open>code\<close>, pairing \<open>metadata.aggregate_result.code\<close> (the empty string when absent) with
  \<open>content.text\<close>. A message whose content type is none of \<open>text\<close>, \<open>multimodal_text\<close>
  and \<open>execution_output\<close> makes the conversion of its chain throw, with the error
  naming the content type when the messages before it convert.
\<close>

theorem execution_output_and_unknown_content_type:
  assumes "rcontent m = Some c"
  shows
   "(content_type c = ''execution_output'' \<longrightarrow>
       messageChunks m chunks
         = Inr (chunks @ [ContentPart ''code'' (CodePayload (codeOrEmpty m) (ctext c)) None])
       \<and> (buildSingleAssistantMessage pre = Inr cs \<longrightarrow>
            buildSingleAssistantMessage (pre @ [m])
              = Inr (cs @ [ContentPart ''code'' (CodePayload (codeOrEmpty m) (ctext c)) None])))
    \<and> (content_type c \<notin> {''text'', ''multimodal_text'', ''execution_output''} \<longrightarrow>
       messageChunks m chunks
         = Inl (Error (''Unexpected content type when building assistant message chunks: ''
                        @ content_type c))
       \<and> (\<exists>e. buildSingleAssistantMessage (pre @ m # post) = Inl e)
       \<and> (buildSingleAssistantMessage pre = Inr cs \<longrightarrow>
            buildSingleAssistantMessage (pre @ m # post)
              = Inl (Error (''Unexpected content type when building assistant message chunks: ''
                             @ content_type c))))
    \<and> codeOrEmpty m =
        (case rmetadata m of
           None \<Rightarrow> []
         | Some md \<Rightarrow>
             (case aggregate_result md of
                None \<Rightarrow> []
              | Some r \<Rightarrow> (case code r of None \<Rightarrow> [] | Some x \<Rightarrow> x)))"
proof -
  have exec: "messageChunks m acc
      = Inr (acc @ [ContentPart ''code'' (CodePayload (codeOrEmpty m) (ctext c)) None])"
    if "content_type c = ''execution_output''" for acc
    using assms that by (simp add: messageChunks_def)
  have unknown: "messageChunks m acc
      = Inl (Error (''Unexpected content type when building assistant message chunks: ''
                     @ content_type c))"
    if "content_type c \<notin> {''text'', ''multimodal_text'', ''execution_output''}" for acc
    using assms that by (simp add: messageChunks_def)
  have code: "codeOrEmpty m =
        (case rmetadata m of
           None \<Rightarrow> []
         | Some md \<Rightarrow>
             (case aggregate_result md of
                None \<Rightarrow> []
              | Some r \<Rightarrow> (case code r of None \<Rightarrow> [] | Some x \<Rightarrow> x)))"
    by (simp add: codeOrEmpty_def split: option.splits)
  have fails: "\<exists>e. forEachMessage (pre @ m # post) [] = Inl e"
    if "content_type c \<notin> {''text'', ''multimodal_text'', ''execution_output''}"
    using unknown [OF that]
    by (cases "forEachMessage pre []") (simp_all add: forEachMessage_append)
  show ?thesis
    using exec unknown code fails
    by (simp add: buildSingleAssistantMessage_def forEachMessage_append)
qed

theorem execution_output_and_unknown_content_type_witness:
  "buildSingleAssistantMessage [execOut]
     = Inr [ContentPart ''code'' (CodePayload ''print(2+2)'' (Some ''4'')) None]
   \<and> buildSingleAssistantMessage [execOut, quoteMessage, execOut]
     = Inl (Error ''Unexpected content type when building assistant message chunks: tether_quote'')"
proof -
  have e: "rcontent execOut
      = Some \<lparr>content_type = ''execution_output'', parts = None, ctext = Some ''4''\<rparr>"
    by (simp add: execOut_def)
  have q: "rcontent quoteMessage
      = Some \<lparr>content_type = ''tether_quote'', parts = None, ctext = Some ''q''\<rparr>"
    by (simp add: quoteMessage_def)
  have n: "buildSingleAssistantMessage [] = Inr []"
    by (simp add: buildSingleAssistantMessage_def)
  have 1: "buildSingleAssistantMessage [execOut]
     = Inr [ContentPart ''code'' (CodePayload ''print(2+2)'' (Some ''4'')) None]"
    using execution_output_and_unknown_content_type [OF e, of "[]" "[]" "[]"] n
    by (simp add: execOut_def)
  have 2: "buildSingleAssistantMessage ([execOut] @ quoteMessage # [execOut])
     = Inl (Error ''Unexpected content type when building assistant message chunks: tether_quote'')"
    using execution_output_and_unknown_content_type [OF q, of _ "[execOut]" _ "[execOut]"] 1
    by simp
  from 1 2 show ?thesis by simp
qed

section \<open>Branches and their chunks\<close>

lemmas fundefs = loadUserMessage_def rawParts_def rawAttachments_def
  validateAndExtractLinkedList_def isUserMessage_def buildSingleAssistantMessage_def
  messageChunks_def contentFieldChunk_def leafChildrenOf_def exploreBranch_def Let_def

lemma forEachPart_length:
  "\<exists>cs. forEachPart ps acc = acc @ cs \<and> length cs = length (filter (\<lambda>p. p \<noteq> OtherPart) ps)"
proof (induction ps acc rule: forEachPart.induct)
  case (1 chunks)
  show ?case by simp
next
  case (2 s ps chunks)
  then show ?case by auto
next
  case (3 p ps chunks)
  then show ?case by auto
next
  case (4 ps chunks)
  then show ?case by auto
qed

lemma messageChunks_count:
  assumes "convertible m"
  shows "\<exists>cs. messageChunks m acc = Inr (acc @ cs) \<and> length cs = chunkCount m"
proof -
  from assms obtain c where c: "rcontent m = Some c"
    by (auto simp: convertible_def split: option.splits)
  show ?thesis
  proof (cases "content_type c = ''execution_output''")
    case True
    with c show ?thesis by (simp add: messageChunks_def chunkCount_def)
  next
    case False
    with assms c obtain ps where ps: "parts c = Some ps"
      and t: "content_type c = ''text'' \<or> content_type c = ''multimodal_text''"
      by (auto simp: convertible_def)
    from forEachPart_length [of ps acc] c ps t False show ?thesis
      by (auto simp: messageChunks_def chunkCount_def)
  qed
qed

lemma forEachMessage_count:
  assumes "\<forall>m\<in>set ms. convertible m"
  shows "\<exists>cs. forEachMessage ms acc = Inr (acc @ cs) \<and> length cs = sum_list (map chunkCount ms)"
  using assms
proof (induction ms arbitrary: acc)
  case Nil
  show ?case by simp
next
  case (Cons m ms)
  from Cons.prems obtain cs where
    m: "messageChunks m acc = Inr (acc @ cs)" "length cs = chunkCount m"
    using messageChunks_count [of m acc] by auto
  from Cons.IH [of "acc @ cs"] Cons.prems obtain ds where
    "forEachMessage ms (acc @ cs) = Inr ((acc @ cs) @ ds)" "length ds = sum_list (map chunkCount ms)"
    by auto
  with m show ?case by simp
qed

lemma mapBranches_ok:
  assumes "\<forall>k\<in>set ids. branchOk raw k"
  shows "mapBranches raw ids (bs, ls)
     = Inr (bs @ map (branchChunks raw) ids, ls @ map (branchLeaf raw) ids)"
  using assms
proof (induction ids arbitrary: bs ls)
  case Nil
  show ?case by simp
next
  case (Cons k rest)
  from Cons.prems obtain chunks l where e: "exploreBranch raw k = Inr (chunks, l)"
    by (auto simp: branchOk_def split: sum.splits)
  with Cons show ?case by (simp add: branchChunks_def branchLeaf_def)
qed

lemma mapBranches_fail:
  assumes "\<forall>j\<in>set pre. branchOk raw j" and "exploreBranch raw k = Inl e"
  shows "mapBranches raw (pre @ k # post) (bs, ls) = Inl e"
  using assms
proof (induction pre arbitrary: bs ls)
  case Nil
  then show ?case by simp
next
  case (Cons j pre)
  from Cons.prems obtain chunks l where "exploreBranch raw j = Inr (chunks, l)"
    by (auto simp: branchOk_def split: sum.splits)
  with Cons show ?case by simp
qed

lemma mapBranches_Inr_ok:
  assumes "mapBranches raw ids (bs, ls) = Inr r"
  shows "\<forall>k\<in>set ids. branchOk raw k"
  using assms
proof (induction ids arbitrary: bs ls)
  case Nil
  show ?case by simp
next
  case (Cons k rest)
  from Cons.prems obtain chunks l where
    e: "exploreBranch raw k = Inr (chunks, l)" and
    r: "mapBranches raw rest (bs @ [chunks], ls @ [l]) = Inr r"
    by (auto split: sum.splits)
  from Cons.IH [OF r] e show ?case by (simp add: branchOk_def)
qed

lemma constructor_branches_fail:
  assumes "mapBranches raw (rchildrenIds raw) ([], []) = Inl e"
  shows "constructor raw p =
     (MergedMessage (rid raw) p (Some (userChunks raw)) None None None None None None None,
      [(''Failed to load (potentially) multiple multipart Assistant Messages: '', e)])"
  using assms
  by (cases raw) (simp add: loadUserMessage_def Let_def userChunks_def)

lemma constructor_branches_ok:
  assumes "mapBranches raw (rchildrenIds raw) ([], []) = Inr (bs, ls)"
    and "forEachLeafMessage (\<lambda>leafChild. constructor leafChild (Some (rid raw))) ls ([], [])
           = ((cs, log), err)"
  shows "constructor raw p =
     (MergedMessage (rid raw) p (Some (userChunks raw)) (Some bs) (Some (JsObject (Some cs) []))
        None None None None None,
      log @ (case err of None \<Rightarrow> [] | Some e \<Rightarrow> [(''Failed to load (potentially) multiple multipart Assistant Messages: '', e)]))"
  using assms
  by (cases raw) (simp add: loadUserMessage_def Let_def userChunks_def)

lemma forEachLeafMessage_append:
  "forEachLeafMessage new (xs @ ys) st =
     (case forEachLeafMessage new xs st of
        (st', Some e) \<Rightarrow> (st', Some e)
      | (st', None) \<Rightarrow> forEachLeafMessage new ys st')"
proof (induction xs arbitrary: st)
  case Nil
  show ?case by simp
next
  case (Cons x xs)
  show ?case
  proof (cases x)
    case None
    then show ?thesis by simp
  next
    case (Some leaf)
    with Cons show ?thesis
      by (simp split: prod.splits option.splits)
  qed
qed

lemma mapBranches_not_ok:
  assumes "\<not> (\<forall>k\<in>set ids. branchOk raw k)"
  shows "\<exists>e. mapBranches raw ids (bs, ls) = Inl e"
proof (cases "mapBranches raw ids (bs, ls)")
  case (Inl e)
  then show ?thesis by blast
next
  case (Inr r)
  from mapBranches_Inr_ok [OF this] assms show ?thesis by blast
qed

text \<open>
  C3, as the code has it. Take a chain in which no non-human message has more than one
  child and every message converts. The walk returns the chain, and its conversion
  yields, for each message, one chunk per string or object part (content types \<open>text\<close>
  and \<open>multimodal_text\<close>) or one chunk (\<open>execution_output\<close>): as many chunks as
  messages when every message yields one chunk. When every branch of the human
  turn is discovered and converted without an exception, \<open>assistantBranches\<close> holds
  exactly one branch per child identifier, in order, the branch of this chain being
  those chunks; when some branch of the human turn throws, \<open>assistantBranches\<close> is left
  unset, for this chain too.
\<close>

theorem branch_chunk_count:
  assumes "\<forall>m\<in>set (visited (map_of (rchildren raw) childId)). \<not> nonLinear m"
    and "\<forall>m\<in>set (chain raw childId). convertible m"
  shows "validateAndExtractLinkedList raw childId = Inr (chain raw childId)
     \<and> buildSingleAssistantMessage (chain raw childId) = Inr (branchChunks raw childId)
     \<and> branchOk raw childId
     \<and> length (branchChunks raw childId) = sum_list (map chunkCount (chain raw childId))
     \<and> ((\<forall>m\<in>set (chain raw childId). chunkCount m = 1) \<longrightarrow>
          length (branchChunks raw childId) = length (chain raw childId))
     \<and> ((\<forall>k\<in>set (rchildrenIds raw). branchOk raw k) \<longrightarrow>
          assistantBranches (fst (constructor raw p))
            = Some (map (branchChunks raw) (rchildrenIds raw))
          \<and> length (map (branchChunks raw) (rchildrenIds raw)) = length (rchildrenIds raw)
          \<and> (\<forall>j<length (rchildrenIds raw). rchildrenIds raw ! j = childId \<longrightarrow>
                map (branchChunks raw) (rchildrenIds raw) ! j = branchChunks raw childId))
     \<and> (\<not> (\<forall>k\<in>set (rchildrenIds raw). branchOk raw k) \<longrightarrow>
          assistantBranches (fst (constructor raw p)) = None)"
proof -
  let ?ms = "chain raw childId"
  have v: "validateAndExtractLinkedList raw childId = Inr ?ms"
    using walk_visited [of "map_of (rchildren raw) childId" "[]"] assms(1)
    by (simp add: validateAndExtractLinkedList_def chain_def)
  from forEachMessage_count [OF assms(2), of "[]"] obtain cs where
    cs: "buildSingleAssistantMessage ?ms = Inr cs" "length cs = sum_list (map chunkCount ?ms)"
    by (auto simp: buildSingleAssistantMessage_def)
  with v have b: "branchChunks raw childId = cs" "branchOk raw childId"
    by (simp_all add: branchChunks_def branchOk_def exploreBranch_def Let_def)
  have one: "sum_list (map chunkCount ms) = length ms" if "\<forall>m\<in>set ms. chunkCount m = 1" for ms
    using that by (induction ms) simp_all
  have all: "assistantBranches (fst (constructor raw p))
            = Some (map (branchChunks raw) (rchildrenIds raw))"
    if "\<forall>k\<in>set (rchildrenIds raw). branchOk raw k"
  proof -
    from mapBranches_ok [OF that, of "[]" "[]"]
    have m: "mapBranches raw (rchildrenIds raw) ([], [])
       = Inr (map (branchChunks raw) (rchildrenIds raw), map (branchLeaf raw) (rchildrenIds raw))"
      by simp
    obtain cs log err where
      "forEachLeafMessage (\<lambda>leafChild. constructor leafChild (Some (rid raw)))
         (map (branchLeaf raw) (rchildrenIds raw)) ([], []) = ((cs, log), err)"
      by (metis prod.exhaust)
    from constructor_branches_ok [OF m this] show ?thesis by simp
  qed
  have none: "assistantBranches (fst (constructor raw p)) = None"
    if "\<not> (\<forall>k\<in>set (rchildrenIds raw). branchOk raw k)"
  proof -
    from mapBranches_not_ok [OF that, of "[]" "[]"] obtain e where
      "mapBranches raw (rchildrenIds raw) ([], []) = Inl e" by blast
    from constructor_branches_fail [OF this] show ?thesis by simp
  qed
  from v cs b one [of ?ms] all none show ?thesis by simp
qed

theorem branch_chunk_count_witness:
  "chain question ''a1'' = [answer4]
   \<and> \<not> nonLinear answer4
   \<and> convertible answer4
   \<and> validateAndExtractLinkedList question ''a1'' = Inr [answer4]
   \<and> length (branchChunks question ''a1'') = 1
   \<and> assistantBranches (fst (constructor question None))
       = Some [[ContentPart ''text'' (StringPayload ''4'') None]]"
proof -
  have vs: "visited (map_of (rchildren question) ''a1'') = [answer4]"
    by (simp add: question_def answer4_def userAuthor_def assistantAuthor_def textContent_def
        isUserMessage_def)
  have nu: "\<not> isUserMessage answer4"
    by (simp add: answer4_def assistantAuthor_def isUserMessage_def)
  have ch: "chain question ''a1'' = [answer4]"
    using vs nu by (simp add: chain_def)
  have nl: "\<not> nonLinear answer4"
    by (simp add: nonLinear_def answer4_def)
  have cv: "convertible answer4"
    by (simp add: convertible_def answer4_def textContent_def)
  have n: "chunkCount answer4 = 1"
    by (simp add: chunkCount_def answer4_def textContent_def)
  have ids: "rchildrenIds question = [''a1'']"
    by (simp add: question_def)
  have bc: "branchChunks question ''a1'' = [ContentPart ''text'' (StringPayload ''4'') None]"
    by (simp add: branchChunks_def question_def answer4_def userAuthor_def assistantAuthor_def
        textContent_def fundefs)
  have 1: "\<forall>m\<in>set (visited (map_of (rchildren question) ''a1'')). \<not> nonLinear m"
    using vs nl by simp
  have 2: "\<forall>m\<in>set (chain question ''a1''). convertible m"
    using ch cv by simp
  from branch_chunk_count [OF 1 2, of None] ch nl cv n ids bc show ?thesis by simp
qed

text \<open>
  The chain of \<open>regenUser\<close> from \<open>b1\<close> is the single message \<open>twoParts\<close>, and the
  branch built for it holds two chunks. The chain of \<open>forkedUser\<close> from \<open>b1\<close> is the
  same linear, convertible chain, and no branch is built for it, since the branch from
  \<open>bad\<close> throws.
\<close>

theorem one_message_two_chunks:
  "validateAndExtractLinkedList regenUser ''b1'' = Inr [twoParts]
   \<and> rchildrenIds twoParts = [''u2'']
   \<and> convertible twoParts
   \<and> assistantBranches (fst (constructor regenUser None))
       = Some [[ContentPart ''text'' (StringPayload ''x'') None,
                ContentPart ''text'' (StringPayload ''y'') None],
               [ContentPart ''text'' (StringPayload ''4'') None]]
   \<and> visited (map_of (rchildren forkedUser) ''b1'') = [twoParts, followUp]
   \<and> chain forkedUser ''b1'' = [twoParts]
   \<and> \<not> nonLinear twoParts
   \<and> \<not> nonLinear followUp
   \<and> validateAndExtractLinkedList forkedUser ''b1'' = Inr [twoParts]
   \<and> assistantBranches (fst (constructor forkedUser None)) = None"
  by (simp add: regenUser_def forkedUser_def forked_def twoParts_def followUp_def answer4_def
      userAuthor_def assistantAuthor_def textContent_def fundefs convertible_def chain_def
      nonLinear_def)

section \<open>Failures during construction\<close>

text \<open>
  C1, as the code has it. The \<open>try\<close> block encloses the whole \<open>childrenIds.map\<close>: when
  the discovery or the conversion of one branch throws (the branches before it
  succeeding), no branch is kept and no child is built. The human turn keeps its
  identifier and \<open>userMessageChunks\<close>, \<open>assistantBranches\<close> and \<open>children\<close> stay
  unset, and the error is logged once. The constructor returns, so the loop of the
  enclosing human turn pushes the object and goes on with its next leaf child.
\<close>

theorem branch_failure_aborts_branch_phase:
  assumes "rchildrenIds raw = pre @ k # post"
    and "\<forall>j\<in>set pre. branchOk raw j"
    and "exploreBranch raw k = Inl e"
  shows "constructor raw p =
     (MergedMessage (rid raw) p (Some (userChunks raw)) None None None None None None None,
      [(''Failed to load (potentially) multiple multipart Assistant Messages: '', e)])
   \<and> (isUserMessage raw \<longrightarrow>
        forEachLeafChild (\<lambda>c. constructor c q) (Some raw # rest) (cs, log)
          = forEachLeafChild (\<lambda>c. constructor c q) rest
              (cs @ [MergedMessage (rid raw) q (Some (userChunks raw))
                       None None None None None None None],
               log @ [(''Failed to load (potentially) multiple multipart Assistant Messages: '', e)]))"
proof -
  from mapBranches_fail [OF assms(2,3), of post "[]" "[]"] assms(1)
  have m: "mapBranches raw (rchildrenIds raw) ([], []) = Inl e" by simp
  have "constructor raw x =
     (MergedMessage (rid raw) x (Some (userChunks raw)) None None None None None None None,
      [(''Failed to load (potentially) multiple multipart Assistant Messages: '', e)])" for x
    by (rule constructor_branches_fail [OF m])
  then show ?thesis by simp
qed

theorem branch_failure_aborts_branch_phase_witness:
  "exploreBranch forkedUser ''bad''
     = Inl (Error ''Assertion Error: Expected the assistant response branch to be linear'')
   \<and> branchOk forkedUser ''b1''
   \<and> constructor forkedUser None =
     (MergedMessage ''u4'' None (Some [ContentPart ''text'' (StringPayload ''q'') None])
        None None None None None None None,
      [(''Failed to load (potentially) multiple multipart Assistant Messages: '',
        Error ''Assertion Error: Expected the assistant response branch to be linear'')])"
proof -
  have ids: "rchildrenIds forkedUser = [''b1''] @ ''bad'' # [''a1'']"
    by (simp add: forkedUser_def forked_def twoParts_def followUp_def answer4_def userAuthor_def assistantAuthor_def textContent_def)
  have ok: "\<forall>j\<in>set [''b1'']. branchOk forkedUser j"
    by (simp add: branchOk_def forkedUser_def forked_def twoParts_def followUp_def answer4_def userAuthor_def assistantAuthor_def textContent_def fundefs)
  have bad: "exploreBranch forkedUser ''bad''
     = Inl (Error ''Assertion Error: Expected the assistant response branch to be linear'')"
    by (simp add: forkedUser_def forked_def twoParts_def followUp_def answer4_def userAuthor_def assistantAuthor_def textContent_def fundefs)
  have u: "userChunks forkedUser = [ContentPart ''text'' (StringPayload ''q'') None]"
    by (simp add: userChunks_def forkedUser_def forked_def twoParts_def followUp_def answer4_def userAuthor_def assistantAuthor_def textContent_def fundefs)
  have i: "rid forkedUser = ''u4''" by (simp add: forkedUser_def forked_def twoParts_def followUp_def answer4_def userAuthor_def assistantAuthor_def textContent_def)
  from branch_failure_aborts_branch_phase [OF ids ok bad, of None] ok bad u i
  show ?thesis by simp
qed

text \<open>
  In \<open>forkedUser\<close> the branches \<open>b1\<close> and \<open>a1\<close> are well formed, and the branch between
  them is not linear: the object built has no branch and no child at all.
\<close>

theorem sibling_branches_lost:
  "exploreBranch forkedUser ''b1''
     = Inr ([ContentPart ''text'' (StringPayload ''x'') None,
             ContentPart ''text'' (StringPayload ''y'') None], Some twoParts)
   \<and> exploreBranch forkedUser ''a1''
     = Inr ([ContentPart ''text'' (StringPayload ''4'') None], Some answer4)
   \<and> exploreBranch forkedUser ''bad''
     = Inl (Error ''Assertion Error: Expected the assistant response branch to be linear'')
   \<and> assistantBranches (fst (constructor forkedUser None)) = None
   \<and> children (fst (constructor forkedUser None)) = None"
  by (simp add: forkedUser_def forked_def twoParts_def followUp_def answer4_def userAuthor_def assistantAuthor_def textContent_def fundefs)

lemma forEachLeafMessage_undefined:
  "forEachLeafMessage new (pre @ None # post) st =
     (case forEachLeafMessage new pre st of
        (st', err) \<Rightarrow> (st', Some (case err of None \<Rightarrow> TypeError | Some e \<Rightarrow> e)))"
  by (simp add: forEachLeafMessage_append split: prod.splits option.splits)

text \<open>
  C10, as the code has it. When the child named by an outgoing identifier is absent or
  is a human turn, the chain of that branch is empty and its leaf is \<open>undefined\<close>. If
  every branch of the human turn is discovered and converted without an exception,
  the leaf aggregation runs: it builds children from the leaves before that branch
  only and ends with an exception at the latest at that leaf (the \<open>TypeError\<close> of the
  \<open>undefined\<close> leaf when the leaves before it raise nothing, the exception of an
  earlier leaf otherwise); the leaves after it are never read. If some branch throws,
  the leaf aggregation does not run and \<open>assistantBranches\<close> and \<open>children\<close> stay
  unset. In every case the constructor returns and the last entry of its log is the
  failure of the second phase.
\<close>

theorem empty_chain_aborts_leaf_aggregation:
  assumes "map_of (rchildren raw) k = None
           \<or> (\<exists>c. map_of (rchildren raw) k = Some c \<and> isUserMessage c)"
    and "rchildrenIds raw = pre @ k # post"
  shows "validateAndExtractLinkedList raw k = Inr []
     \<and> exploreBranch raw k = Inr ([], None)
     \<and> ((\<forall>j\<in>set (rchildrenIds raw). branchOk raw j) \<longrightarrow>
          (\<exists>cs log err.
             forEachLeafMessage (\<lambda>c. constructor c (Some (rid raw)))
               (map (branchLeaf raw) pre) ([], []) = ((cs, log), err)
             \<and> constructor raw p =
                 (MergedMessage (rid raw) p (Some (userChunks raw))
                    (Some (map (branchChunks raw) (rchildrenIds raw)))
                    (Some (JsObject (Some cs) [])) None None None None None,
                  log @ [(''Failed to load (potentially) multiple multipart Assistant Messages: '',
                          case err of None \<Rightarrow> TypeError | Some e \<Rightarrow> e)])))
     \<and> (\<not> (\<forall>j\<in>set (rchildrenIds raw). branchOk raw j) \<longrightarrow>
          (\<exists>e. constructor raw p =
                 (MergedMessage (rid raw) p (Some (userChunks raw))
                    None None None None None None None,
                  [(''Failed to load (potentially) multiple multipart Assistant Messages: '', e)])))
     \<and> (\<exists>e. snd (constructor raw p) \<noteq> []
           \<and> last (snd (constructor raw p))
               = (''Failed to load (potentially) multiple multipart Assistant Messages: '', e))"
proof -
  have v: "validateAndExtractLinkedList raw k = Inr []"
    using assms(1) by (auto simp: validateAndExtractLinkedList_def)
  then have e: "exploreBranch raw k = Inr ([], None)"
    by (simp add: exploreBranch_def buildSingleAssistantMessage_def)
  then have leaf: "branchLeaf raw k = None"
    by (simp add: branchLeaf_def)
  have ok: "\<exists>cs log err.
             forEachLeafMessage (\<lambda>c. constructor c (Some (rid raw)))
               (map (branchLeaf raw) pre) ([], []) = ((cs, log), err)
             \<and> constructor raw p =
                 (MergedMessage (rid raw) p (Some (userChunks raw))
                    (Some (map (branchChunks raw) (rchildrenIds raw)))
                    (Some (JsObject (Some cs) [])) None None None None None,
                  log @ [(''Failed to load (potentially) multiple multipart Assistant Messages: '',
                          case err of None \<Rightarrow> TypeError | Some e \<Rightarrow> e)])"
    if all: "\<forall>j\<in>set (rchildrenIds raw). branchOk raw j"
  proof -
    from mapBranches_ok [OF all, of "[]" "[]"]
    have m: "mapBranches raw (rchildrenIds raw) ([], [])
       = Inr (map (branchChunks raw) (rchildrenIds raw), map (branchLeaf raw) (rchildrenIds raw))"
      by simp
    obtain cs log err where
      f: "forEachLeafMessage (\<lambda>c. constructor c (Some (rid raw)))
               (map (branchLeaf raw) pre) ([], []) = ((cs, log), err)"
      by (metis prod.exhaust)
    have ls: "map (branchLeaf raw) (rchildrenIds raw)
        = map (branchLeaf raw) pre @ None # map (branchLeaf raw) post"
      using assms(2) leaf by simp
    have "forEachLeafMessage (\<lambda>c. constructor c (Some (rid raw)))
            (map (branchLeaf raw) (rchildrenIds raw)) ([], [])
          = ((cs, log), Some (case err of None \<Rightarrow> TypeError | Some e \<Rightarrow> e))"
      unfolding ls forEachLeafMessage_undefined using f by simp
    from constructor_branches_ok [OF m this] f show ?thesis by simp
  qed
  have fail: "\<exists>e. constructor raw p =
                 (MergedMessage (rid raw) p (Some (userChunks raw))
                    None None None None None None None,
                  [(''Failed to load (potentially) multiple multipart Assistant Messages: '', e)])"
    if "\<not> (\<forall>j\<in>set (rchildrenIds raw). branchOk raw j)"
  proof -
    from mapBranches_not_ok [OF that, of "[]" "[]"] obtain e where
      "mapBranches raw (rchildrenIds raw) ([], []) = Inl e" by blast
    from constructor_branches_fail [OF this] show ?thesis by blast
  qed
  have logged: "\<exists>e. snd (constructor raw p) \<noteq> []
           \<and> last (snd (constructor raw p))
               = (''Failed to load (potentially) multiple multipart Assistant Messages: '', e)"
  proof (cases "\<forall>j\<in>set (rchildrenIds raw). branchOk raw j")
    case True
    from ok [OF this] show ?thesis by auto
  next
    case False
    from fail [OF this] show ?thesis by auto
  qed
  from v e ok fail logged show ?thesis by blast
qed

theorem empty_chain_aborts_leaf_aggregation_witness:
  "map_of (rchildren emptyChainUser) ''u2'' = Some followUp
   \<and> isUserMessage followUp
   \<and> validateAndExtractLinkedList emptyChainUser ''u2'' = Inr []
   \<and> constructor emptyChainUser None =
      (MergedMessage ''u7'' None (Some [ContentPart ''text'' (StringPayload ''q'') None])
         (Some [[ContentPart ''text'' (StringPayload ''x'') None,
                 ContentPart ''text'' (StringPayload ''y'') None],
                [],
                [ContentPart ''text'' (StringPayload ''w'') None]])
         (Some (JsObject
            (Some [MergedMessage ''u2'' (Some ''u7'')
                     (Some [ContentPart ''text'' (StringPayload ''more'') None])
                     (Some []) (Some (JsObject (Some []) [])) None None None None None])
            []))
         None None None None None,
       [(''Failed to load (potentially) multiple multipart Assistant Messages: '', TypeError)])"
proof -
  have c: "map_of (rchildren emptyChainUser) ''u2'' = Some followUp"
    by (simp add: emptyChainUser_def thirdReply_def lastUser_def twoParts_def followUp_def userAuthor_def assistantAuthor_def textContent_def)
  have u: "isUserMessage followUp"
    by (simp add: emptyChainUser_def thirdReply_def lastUser_def twoParts_def followUp_def userAuthor_def assistantAuthor_def textContent_def isUserMessage_def)
  have ids: "rchildrenIds emptyChainUser = [''b1''] @ ''u2'' # [''c1'']"
    by (simp add: emptyChainUser_def thirdReply_def lastUser_def twoParts_def followUp_def userAuthor_def assistantAuthor_def textContent_def)
  have ok: "\<forall>j\<in>set (rchildrenIds emptyChainUser). branchOk emptyChainUser j"
    by (simp add: branchOk_def emptyChainUser_def thirdReply_def lastUser_def twoParts_def followUp_def userAuthor_def assistantAuthor_def textContent_def fundefs)
  have pre: "forEachLeafMessage (\<lambda>c. constructor c (Some (rid emptyChainUser)))
               (map (branchLeaf emptyChainUser) [''b1'']) ([], [])
     = (([MergedMessage ''u2'' (Some ''u7'')
                     (Some [ContentPart ''text'' (StringPayload ''more'') None])
                     (Some []) (Some (JsObject (Some []) [])) None None None None None], []), None)"
    by (simp add: branchLeaf_def emptyChainUser_def thirdReply_def lastUser_def twoParts_def followUp_def userAuthor_def assistantAuthor_def textContent_def fundefs)
  have bs: "map (branchChunks emptyChainUser) (rchildrenIds emptyChainUser)
     = [[ContentPart ''text'' (StringPayload ''x'') None,
                 ContentPart ''text'' (StringPayload ''y'') None],
                [],
                [ContentPart ''text'' (StringPayload ''w'') None]]"
    by (simp add: branchChunks_def emptyChainUser_def thirdReply_def lastUser_def twoParts_def followUp_def userAuthor_def assistantAuthor_def textContent_def fundefs)
  have uc: "userChunks emptyChainUser = [ContentPart ''text'' (StringPayload ''q'') None]"
    by (simp add: userChunks_def emptyChainUser_def thirdReply_def lastUser_def twoParts_def followUp_def userAuthor_def assistantAuthor_def textContent_def fundefs)
  have i: "rid emptyChainUser = ''u7''" by (simp add: emptyChainUser_def thirdReply_def lastUser_def twoParts_def followUp_def userAuthor_def assistantAuthor_def textContent_def)
  from empty_chain_aborts_leaf_aggregation [OF _ ids, of None] c u ok
  have "validateAndExtractLinkedList emptyChainUser ''u2'' = Inr []
     \<and> (\<exists>cs log err.
             forEachLeafMessage (\<lambda>c. constructor c (Some (rid emptyChainUser)))
               (map (branchLeaf emptyChainUser) [''b1'']) ([], []) = ((cs, log), err)
             \<and> constructor emptyChainUser None =
                 (MergedMessage (rid emptyChainUser) None (Some (userChunks emptyChainUser))
                    (Some (map (branchChunks emptyChainUser) (rchildrenIds emptyChainUser)))
                    (Some (JsObject (Some cs) [])) None None None None None,
                  log @ [(''Failed to load (potentially) multiple multipart Assistant Messages: '',
                          case err of None \<Rightarrow> TypeError | Some e \<Rightarrow> e)]))"
    by blast
  with pre bs uc i c u show ?thesis by auto
qed

text \<open>
  In \<open>emptyChainForkedUser\<close> the child \<open>u2\<close> is a human turn and its chain is empty,
  but the branch from \<open>bad\<close> throws: the leaf aggregation does not run, no array of
  children is made, and the error logged is that of the branch. In
  \<open>danglingEmptyUser\<close> the chain of \<open>u2\<close> is empty as well, but the loop ends before,
  at the leaf \<open>dangling\<close>, whose child is \<open>undefined\<close>.
\<close>

theorem leaf_aggregation_not_reached:
  "map_of (rchildren emptyChainForkedUser) ''u2'' = Some followUp
   \<and> isUserMessage followUp
   \<and> validateAndExtractLinkedList emptyChainForkedUser ''u2'' = Inr []
   \<and> constructor emptyChainForkedUser None =
      (MergedMessage ''u9'' None (Some [ContentPart ''text'' (StringPayload ''q'') None])
         None None None None None None None,
       [(''Failed to load (potentially) multiple multipart Assistant Messages: '',
         Error ''Assertion Error: Expected the assistant response branch to be linear'')])
   \<and> map_of (rchildren danglingEmptyUser) ''u2'' = Some followUp
   \<and> validateAndExtractLinkedList danglingEmptyUser ''u2'' = Inr []
   \<and> branchLeaf danglingEmptyUser ''d1'' = Some dangling
   \<and> leafChildrenOf dangling = [None]
   \<and> forEachLeafMessage (\<lambda>c. constructor c (Some ''u10'')) [Some dangling] ([], [])
       = (([], []), Some TypeError)
   \<and> constructor danglingEmptyUser None =
      (MergedMessage ''u10'' None (Some [ContentPart ''text'' (StringPayload ''q'') None])
         (Some [[ContentPart ''text'' (StringPayload ''z'') None], []])
         (Some (JsObject (Some []) [])) None None None None None,
       [(''Failed to load (potentially) multiple multipart Assistant Messages: '', TypeError)])"
  by (simp add: emptyChainForkedUser_def danglingEmptyUser_def dangling_def forked_def
      twoParts_def followUp_def answer4_def userAuthor_def assistantAuthor_def textContent_def
      branchLeaf_def fundefs)

section \<open>Deletion with promotion\<close>

text \<open>
  A result reached within some bound on the depth stays the same under every larger
  bound.
\<close>

lemma delete_fuel_mono:
  "(deleteChildMessageById n t i r = Some x \<longrightarrow> (\<forall>m\<ge>n. deleteChildMessageById m t i r = Some x))"
  "(forEachChildDelete n ids cs i = Some y \<longrightarrow> (\<forall>m\<ge>n. forEachChildDelete m ids cs i = Some y))"
proof (induction n t i r and n ids cs i arbitrary: x and y
    rule: deleteChildMessageById_forEachChildDelete.induct)
  case (1 fuel this i recurse)
  show ?case
  proof (intro impI allI)
    fix m assume a: "deleteChildMessageById fuel this i recurse = Some x" and m: "fuel \<le> m"
    show "deleteChildMessageById m this i recurse = Some x"
    proof (cases "childrenIds this")
      case None
      with a show ?thesis by simp
    next
      case (Some ids)
      show ?thesis
      proof (cases "i \<notin> set ids \<and> recurse")
        case False
        with a Some show ?thesis by auto
      next
        case True
        with a Some obtain y where
          y: "forEachChildDelete fuel ids (children this) i = Some y"
          by (auto split: option.splits)
        from "1.IH" [OF Some _ _, of y] True y m
        have "forEachChildDelete m ids (children this) i = Some y" by simp
        with a y True Some show ?thesis by simp
      qed
    qed
  qed
next
  case (2 fuel cs i)
  show ?case by simp
next
  case (3 fuel childId rest cs i)
  show ?case
  proof (intro impI allI)
    fix m assume a: "forEachChildDelete fuel (childId # rest) cs i = Some y" and m: "fuel \<le> m"
    show "forEachChildDelete m (childId # rest) cs i = Some y"
    proof (cases cs)
      case None
      with a show ?thesis by simp
    next
      case (Some obj)
      show ?thesis
      proof (cases "getProp childId obj")
        case None
        with a Some show ?thesis by simp
      next
        case c: (Some child)
        from a Some c obtain fuel' where f: "fuel = Suc fuel'"
          by (cases fuel) auto
        with m obtain m' where m': "m = Suc m'" "fuel' \<le> m'"
          by (cases m) auto
        from a Some c f obtain z where
          z: "deleteChildMessageById fuel' child i True = Some z"
          by (auto split: option.splits)
        from "3.IH"(1) [OF Some c f, of z] z m'
        have z': "deleteChildMessageById m' child i True = Some z" by simp
        show ?thesis
        proof (cases z)
          case (Inl e)
          with a Some c f z z' m' show ?thesis by simp
        next
          case (Inr child')
          with a Some c f z have
            "forEachChildDelete fuel rest (Some (setProp childId (Some child') obj)) i = Some y"
            by simp
          with "3.IH"(2) [OF Some c f z Inr, of y] m
          have "forEachChildDelete m rest (Some (setProp childId (Some child') obj)) i = Some y"
            by simp
          with Some c z' m' Inr show ?thesis by simp
        qed
      qed
    qed
  qed
qed

lemma getProp_setProp: "getProp y (setProp k v obj) = (if y = k then v else getProp y obj)"
  by (cases v) (simp_all add: getProp_def setProp_def update_conv' delete_conv')

lemma getProp_deleteProp: "getProp y (deleteProp k obj) = (if y = k then None else getProp y obj)"
  by (simp add: getProp_def deleteProp_def delete_conv')

lemma elems_setProp: "elems (setProp k v obj) = elems obj"
  by (simp add: setProp_def)

lemma elems_deleteProp: "elems (deleteProp k obj) = elems obj"
  by (simp add: deleteProp_def)

lemma promote_result:
  "\<exists>obj'. promote cids cobj (ids, obj) = (ids @ cids, obj')
     \<and> elems obj' = elems obj
     \<and> (\<forall>y. getProp y obj' = (if y \<in> set cids then getProp y cobj else getProp y obj))"
proof (induction cids arbitrary: ids obj)
  case Nil
  show ?case by simp
next
  case (Cons c rest)
  from Cons.IH [of "ids @ [c]" "setProp c (getProp c cobj) obj"]
  show ?case by (auto simp: getProp_setProp elems_setProp)
qed

lemma deleteBaseCase_promotes:
  assumes "children this = Some obj" and "getProp X obj = Some child"
    and "childrenIds child = Some cids"
    and "cids = [] \<or> children child = Some cobj"
  shows "\<exists>this' obj'.
       deleteBaseCase this ids X = Inr this'
     \<and> childrenIds this'
         = Some (filter (\<lambda>y. y \<noteq> X) ids @ filter (\<lambda>y. y \<noteq> X) cids)
     \<and> (X \<notin> set cids \<longrightarrow> childrenIds this' = Some (filter (\<lambda>y. y \<noteq> X) ids @ cids))
     \<and> children this' = Some obj'
     \<and> getProp X obj' = None
     \<and> (\<forall>y\<in>set cids. y \<noteq> X \<longrightarrow> getProp y obj' = getProp y cobj)
     \<and> (\<forall>y. y \<notin> set cids \<longrightarrow> y \<noteq> X \<longrightarrow> getProp y obj' = getProp y obj)
     \<and> elems obj' = elems obj
     \<and> mid this' = mid this \<and> parent this' = parent this
     \<and> userMessageChunks this' = userMessageChunks this
     \<and> assistantBranches this' = assistantBranches this
     \<and> author this' = author this \<and> recipient this' = recipient this
     \<and> content this' = content this \<and> meta this' = meta this"
proof -
  obtain ids' obj1 where
    p: "(if length cids > 0 then
           (case children child of
              None \<Rightarrow> Inl TypeError
            | Some childChildren \<Rightarrow> Inr (promote cids childChildren (ids, obj)))
         else Inr (ids, obj)) = Inr (ids', obj1)"
    and i: "ids' = ids @ cids"
    and e: "elems obj1 = elems obj"
    and g: "\<forall>y. getProp y obj1 = (if y \<in> set cids then getProp y cobj else getProp y obj)"
  proof (cases "cids = []")
    case True
    then show ?thesis using that [of ids obj] by simp
  next
    case False
    with assms(4) have c: "children child = Some cobj" by simp
    from promote_result [of cids cobj ids obj] obtain obj' where
      "promote cids cobj (ids, obj) = (ids @ cids, obj')" "elems obj' = elems obj"
      "\<forall>y. getProp y obj' = (if y \<in> set cids then getProp y cobj else getProp y obj)"
      by blast
    with False c show ?thesis using that [of "ids @ cids" obj'] by simp
  qed
  let ?this' = "withChildren this (filter (\<lambda>childId. childId \<noteq> X) ids') (deleteProp X obj1)"
  have b: "deleteBaseCase this ids X = Inr ?this'"
    using assms(1,2,3) p by (simp add: deleteBaseCase_def)
  have f: "X \<notin> set cids \<Longrightarrow> filter (\<lambda>y. y \<noteq> X) cids = cids"
    by (induction cids) auto
  show ?thesis
    using b i e g f
    by (intro exI [of _ ?this'] exI [of _ "deleteProp X obj1"])
       (simp add: withChildren_def getProp_deleteProp elems_deleteProp)
qed

text \<open>
  C4. Let \<open>X\<close> be a direct child of a merged message, with an entry in \<open>children\<close> whose
  own children are \<open>cids\<close>. Then \<open>deleteChildMessageById(X, r)\<close> returns, for both
  values of \<open>r\<close> and without using fuel. Afterwards \<open>childrenIds\<close> is the old
  identifiers without \<open>X\<close> followed by \<open>cids\<close> in their order (without \<open>X\<close>, should it
  occur there), \<open>children\<close> has no entry for \<open>X\<close>, the entry of each promoted
  identifier is the very child that \<open>X\<close> held under it, with its own subtree, the
  other entries are unchanged, and so are the other properties.
\<close>

theorem delete_direct_child_promotes:
  assumes "childrenIds this = Some ids" and "X \<in> set ids"
    and "children this = Some obj" and "getProp X obj = Some child"
    and "childrenIds child = Some cids"
    and "cids = [] \<or> children child = Some cobj"
  shows "\<exists>this' obj'.
       deleteChildMessageById fuel this X r = Some (Inr this')
     \<and> childrenIds this'
         = Some (filter (\<lambda>y. y \<noteq> X) ids @ filter (\<lambda>y. y \<noteq> X) cids)
     \<and> (X \<notin> set cids \<longrightarrow> childrenIds this' = Some (filter (\<lambda>y. y \<noteq> X) ids @ cids))
     \<and> children this' = Some obj'
     \<and> getProp X obj' = None
     \<and> (\<forall>y\<in>set cids. y \<noteq> X \<longrightarrow> getProp y obj' = getProp y cobj)
     \<and> (\<forall>y. y \<notin> set cids \<longrightarrow> y \<noteq> X \<longrightarrow> getProp y obj' = getProp y obj)
     \<and> elems obj' = elems obj
     \<and> mid this' = mid this \<and> parent this' = parent this
     \<and> userMessageChunks this' = userMessageChunks this
     \<and> assistantBranches this' = assistantBranches this
     \<and> author this' = author this \<and> recipient this' = recipient this
     \<and> content this' = content this \<and> meta this' = meta this"
proof -
  have "deleteChildMessageById fuel this X r = Some (deleteBaseCase this ids X)"
    using assms(1,2) by simp
  with deleteBaseCase_promotes [OF assms(3,4,5,6), of ids] show ?thesis by auto
qed

theorem delete_direct_child_promotes_witness:
  "deleteChildMessageById 0 parentP ''X'' False =
     Some (Inr (supernode ''P'' [''A'', ''B'', ''Y'', ''Z'']
                  [(''A'', supernode ''A'' [] []), (''B'', supernode ''B'' [] []),
                   (''Y'', deepY), (''Z'', supernode ''Z'' [] [])]))
   \<and> childrenIds deepY = Some [''W'']"
proof -
  have 1: "childrenIds parentP = Some [''A'', ''X'', ''B'']"
    and 3: "children parentP = Some (JsObject None
       [(''A'', supernode ''A'' [] []), (''X'', targetX), (''B'', supernode ''B'' [] [])])"
    by (simp_all add: parentP_def supernode_def)
  have 2: "''X'' \<in> set [''A'', ''X'', ''B'']" by simp
  have 4: "getProp ''X'' (JsObject None
       [(''A'', supernode ''A'' [] []), (''X'', targetX), (''B'', supernode ''B'' [] [])])
       = Some targetX"
    by (simp add: getProp_def)
  have 5: "childrenIds targetX = Some [''Y'', ''Z'']"
    and 6: "[''Y'', ''Z''] = [] \<or> children targetX
       = Some (JsObject None [(''Y'', deepY), (''Z'', supernode ''Z'' [] [])])"
    by (simp_all add: targetX_def supernode_def)
  from delete_direct_child_promotes [OF 1 2 3 4 5 6, of 0 False]
  obtain this' where
    d: "deleteChildMessageById 0 parentP ''X'' False = Some (Inr this')"
    and ids: "childrenIds this' = Some [''A'', ''B'', ''Y'', ''Z'']"
    by auto
  have "deleteChildMessageById 0 parentP ''X'' False =
     Some (Inr (supernode ''P'' [''A'', ''B'', ''Y'', ''Z'']
                  [(''A'', supernode ''A'' [] []), (''B'', supernode ''B'' [] []),
                   (''Y'', deepY), (''Z'', supernode ''Z'' [] [])]))"
    by (simp add: parentP_def targetX_def supernode_def deleteBaseCase_def getProp_def
        setProp_def deleteProp_def withChildren_def)
  moreover have "childrenIds deepY = Some [''W'']"
    by (simp add: deepY_def supernode_def)
  ultimately show ?thesis using d ids by simp
qed

section \<open>The invariant of \<open>childrenIds\<close> and \<open>children\<close>\<close>

lemma getProp_keys: "getProp k obj \<noteq> None \<longleftrightarrow> k \<in> set (map fst (props obj))"
  by (simp add: getProp_def map_of_eq_None_iff)

lemma childrenConsistent_iff:
  "childrenConsistent this \<longleftrightarrow>
     (\<exists>ids obj. childrenIds this = Some ids \<and> children this = Some obj
        \<and> (\<forall>k. k \<in> set ids \<longleftrightarrow> getProp k obj \<noteq> None)
        \<and> (elems obj = None \<or> elems obj = Some []))"
  unfolding childrenConsistent_def getProp_keys
  by (auto split: option.splits)

lemma delete_preserves_consistency:
  assumes "childrenConsistent this" and "childrenIds this = Some ids" and "X \<in> set ids"
    and "children this = Some obj" and "getProp X obj = Some child"
    and "childrenConsistent child"
  shows "\<exists>this'. deleteChildMessageById fuel this X r = Some (Inr this')
           \<and> childrenConsistent this'"
proof -
  from assms(6) obtain cids cobj where
    c: "childrenIds child = Some cids" "children child = Some cobj"
    and ck: "\<forall>k. k \<in> set cids \<longleftrightarrow> getProp k cobj \<noteq> None"
    unfolding childrenConsistent_iff by blast
  from assms(1,2,4) have k: "\<forall>k. k \<in> set ids \<longleftrightarrow> getProp k obj \<noteq> None"
    and el: "elems obj = None \<or> elems obj = Some []"
    unfolding childrenConsistent_iff by auto
  have "deleteChildMessageById fuel this X r = Some (deleteBaseCase this ids X)"
    using assms(2,3) by simp
  with deleteBaseCase_promotes [OF assms(4,5) c(1), of cobj ids] c(2)
  obtain this' obj' where
    d: "deleteChildMessageById fuel this X r = Some (Inr this')"
    and i: "childrenIds this' = Some (filter (\<lambda>y. y \<noteq> X) ids @ filter (\<lambda>y. y \<noteq> X) cids)"
    and o: "children this' = Some obj'" "getProp X obj' = None"
      "\<forall>y\<in>set cids. y \<noteq> X \<longrightarrow> getProp y obj' = getProp y cobj"
      "\<forall>y. y \<notin> set cids \<longrightarrow> y \<noteq> X \<longrightarrow> getProp y obj' = getProp y obj"
      "elems obj' = elems obj"
    by auto
  have "k \<in> set (filter (\<lambda>y. y \<noteq> X) ids @ filter (\<lambda>y. y \<noteq> X) cids)
          \<longleftrightarrow> getProp k obj' \<noteq> None" for k
    using o(2,3,4) k ck by (cases "k = X"; cases "k \<in> set cids") auto
  with i o(1,5) el have "childrenConsistent this'"
    unfolding childrenConsistent_iff by auto
  with d show ?thesis by blast
qed

text \<open>
  C2. The constructor assigns an array to \<open>children\<close> and never assigns
  \<open>childrenIds\<close>: right after construction \<open>childrenIds\<close> is \<open>undefined\<close>, the
  invariant does not hold, and \<open>deleteChildMessageById\<close> throws a \<open>TypeError\<close> for every
  identifier. (Where the invariant holds, for the message and for the child deleted,
  deletion keeps it: \<open>delete_preserves_consistency\<close>.)
\<close>

theorem constructor_leaves_childrenIds_unset:
  "childrenIds (fst (constructor raw p)) = None
   \<and> \<not> childrenConsistent (fst (constructor raw p))
   \<and> deleteChildMessageById fuel (fst (constructor raw p)) i r = Some (Inl TypeError)"
proof -
  have "childrenIds (fst (constructor raw p)) = None"
    by (cases raw) (simp add: Let_def split: sum.splits prod.splits)
  then show ?thesis by (simp add: childrenConsistent_def)
qed

theorem constructor_leaves_childrenIds_unset_witness:
  "fst (constructor regenUser None) =
     MergedMessage ''u3'' None (Some [ContentPart ''text'' (StringPayload ''q'') None])
       (Some [[ContentPart ''text'' (StringPayload ''x'') None,
               ContentPart ''text'' (StringPayload ''y'') None],
              [ContentPart ''text'' (StringPayload ''4'') None]])
       (Some (JsObject
          (Some [MergedMessage ''u2'' (Some ''u3'')
                   (Some [ContentPart ''text'' (StringPayload ''more'') None])
                   (Some []) (Some (JsObject (Some []) [])) None None None None None])
          []))
       None None None None None
   \<and> deleteChildMessageById 1 (fst (constructor regenUser None)) ''u2'' True
       = Some (Inl TypeError)"
proof -
  have "fst (constructor regenUser None) =
     MergedMessage ''u3'' None (Some [ContentPart ''text'' (StringPayload ''q'') None])
       (Some [[ContentPart ''text'' (StringPayload ''x'') None,
               ContentPart ''text'' (StringPayload ''y'') None],
              [ContentPart ''text'' (StringPayload ''4'') None]])
       (Some (JsObject
          (Some [MergedMessage ''u2'' (Some ''u3'')
                   (Some [ContentPart ''text'' (StringPayload ''more'') None])
                   (Some []) (Some (JsObject (Some []) [])) None None None None None])
          []))
       None None None None None"
    by (simp add: regenUser_def twoParts_def followUp_def answer4_def userAuthor_def
        assistantAuthor_def textContent_def fundefs)
  with constructor_leaves_childrenIds_unset [of regenUser None 1 "''u2''" True]
  show ?thesis by simp
qed

section \<open>Merging\<close>

text \<open>
  C8. On a message whose author is the tool \<open>dalle.text2im\<close>, with exactly one child,
  which is authored by the assistant, \<open>mergeSubsequentAssistantMessages\<close> appends the
  child's parts to the message's own parts, takes over the child's \<open>author\<close> and
  \<open>meta\<close>, and deletes the child without recursion (the child's own children are
  promoted). In both recognised cases a number of children other than one is an
  assertion error, and any other author and recipient is the unexpected-entry error.
\<close>

theorem mergeSubsequentAssistantMessages_cases:
  assumes "author this = Some a"
  shows
   "(role a = ''tool'' \<and> name a = Some ''dalle.text2im''
       \<and> childrenIds this = Some [childId] \<and> children this = Some obj
       \<and> getProp childId obj = Some am \<and> author am = Some aa \<and> role aa = ''assistant''
       \<and> content this = Some c \<and> parts c = Some ps
       \<and> content am = Some ac \<and> parts ac = Some qs
       \<and> childrenIds am = Some cids \<and> (cids = [] \<or> children am = Some cobj)
     \<longrightarrow> (\<exists>this' obj'.
            mergeSubsequentAssistantMessages this = Some (Inr this')
          \<and> content this' = Some (c\<lparr>parts := Some (ps @ qs)\<rparr>)
          \<and> author this' = Some aa
          \<and> meta this' = meta am
          \<and> childrenIds this' = Some (filter (\<lambda>y. y \<noteq> childId) cids)
          \<and> children this' = Some obj'
          \<and> getProp childId obj' = None
          \<and> (\<forall>y\<in>set cids. y \<noteq> childId \<longrightarrow> getProp y obj' = getProp y cobj)
          \<and> mid this' = mid this \<and> recipient this' = recipient this))
    \<and> (role a = ''tool'' \<and> name a = Some ''dalle.text2im''
       \<and> childrenIds this = Some ids \<and> length ids \<noteq> 1
     \<longrightarrow> mergeSubsequentAssistantMessages this
           = Some (Inl (Error ''Assertion Error: Expected the dalle message only has one child'')))
    \<and> (\<not> (role a = ''tool'' \<and> name a = Some ''dalle.text2im'')
       \<and> role a = ''assistant'' \<and> recipient this = Some ''python''
       \<and> childrenIds this = Some ids \<and> length ids \<noteq> 1
     \<longrightarrow> mergeSubsequentAssistantMessages this
           = Some (Inl (Error ''Assertion Error: Expected the child of the code block message to only have one child'')))
    \<and> (\<not> (role a = ''tool'' \<and> name a = Some ''dalle.text2im'')
       \<and> \<not> (role a = ''assistant'' \<and> recipient this = Some ''python'')
     \<longrightarrow> mergeSubsequentAssistantMessages this
           = Some (Inl (Error ''Assertion Error: Unexpected entry message for Assistant Message Merging'')))"
proof -
  have dalle: "\<exists>this' obj'.
            mergeSubsequentAssistantMessages this = Some (Inr this')
          \<and> content this' = Some (c\<lparr>parts := Some (ps @ qs)\<rparr>)
          \<and> author this' = Some aa
          \<and> meta this' = meta am
          \<and> childrenIds this' = Some (filter (\<lambda>y. y \<noteq> childId) cids)
          \<and> children this' = Some obj'
          \<and> getProp childId obj' = None
          \<and> (\<forall>y\<in>set cids. y \<noteq> childId \<longrightarrow> getProp y obj' = getProp y cobj)
          \<and> mid this' = mid this \<and> recipient this' = recipient this"
    if h: "role a = ''tool''" "name a = Some ''dalle.text2im''"
      "childrenIds this = Some [childId]" "children this = Some obj"
      "getProp childId obj = Some am" "author am = Some aa" "role aa = ''assistant''"
      "content this = Some c" "parts c = Some ps"
      "content am = Some ac" "parts ac = Some qs"
      "childrenIds am = Some cids" "cids = [] \<or> children am = Some cobj"
  proof -
    let ?merged = "MergedMessage (mid this) (parent this) (userMessageChunks this)
        (assistantBranches this) (children this) (childrenIds this) (author am)
        (recipient this) (Some (c\<lparr>parts := Some (ps @ qs)\<rparr>)) (meta am)"
    have m: "mergeSubsequentAssistantMessages this
        = Some (deleteBaseCase ?merged [childId] childId)"
      using assms h by (simp add: mergeSubsequentAssistantMessages_def)
    have 3: "children ?merged = Some obj" using h(4) by simp
    from deleteBaseCase_promotes [OF 3 h(5) h(12) h(13), of "[childId]"]
    show ?thesis unfolding m using h(6) by auto
  qed
  show ?thesis
    using assms dalle
    by (auto simp: mergeSubsequentAssistantMessages_def)
qed

theorem mergeSubsequentAssistantMessages_cases_witness:
  "mergeSubsequentAssistantMessages dalleNode =
     Some (Inr (MergedMessage ''t1'' None None None
        (Some (JsObject None [(''n1'', supernode ''n1'' [] [])])) (Some [''n1''])
        (Some \<lparr>role = ''assistant'', name = None\<rparr>) None
        (Some \<lparr>content_type = ''multimodal_text'',
               parts = Some [ObjectPart ''file-service://i1'', StringPart ''Here it is''],
               ctext = None\<rparr>)
        (Some \<lparr>attachments = None, aggregate_result = None\<rparr>)))"
proof -
  let ?am = "MergedMessage ''m1'' None None None
              (Some (JsObject None [(''n1'', supernode ''n1'' [] [])])) (Some [''n1''])
              (Some \<lparr>role = ''assistant'', name = None\<rparr>) None
              (Some \<lparr>content_type = ''text'', parts = Some [StringPart ''Here it is''],
                     ctext = None\<rparr>)
              (Some \<lparr>attachments = None, aggregate_result = None\<rparr>)"
  have a: "author dalleNode = Some \<lparr>role = ''tool'', name = Some ''dalle.text2im''\<rparr>"
    by (simp add: dalleNode_def)
  have h: "childrenIds dalleNode = Some [''m1'']"
    "children dalleNode = Some (JsObject None [(''m1'', ?am)])"
    "getProp ''m1'' (JsObject None [(''m1'', ?am)]) = Some ?am"
    "content dalleNode = Some \<lparr>content_type = ''multimodal_text'',
        parts = Some [ObjectPart ''file-service://i1''], ctext = None\<rparr>"
    by (simp_all add: dalleNode_def getProp_def)
  from mergeSubsequentAssistantMessages_cases [OF a,
      of "''m1''" "JsObject None [(''m1'', ?am)]" ?am "\<lparr>role = ''assistant'', name = None\<rparr>"
         "\<lparr>content_type = ''multimodal_text'',
             parts = Some [ObjectPart ''file-service://i1''], ctext = None\<rparr>"
         "[ObjectPart ''file-service://i1'']"
         "\<lparr>content_type = ''text'', parts = Some [StringPart ''Here it is''], ctext = None\<rparr>"
         "[StringPart ''Here it is'']" "[''n1'']"
         "JsObject None [(''n1'', supernode ''n1'' [] [])]"] h
  obtain this' where
    "mergeSubsequentAssistantMessages dalleNode = Some (Inr this')"
    "childrenIds this' = Some [''n1'']"
    by auto
  moreover have "mergeSubsequentAssistantMessages dalleNode =
     Some (Inr (MergedMessage ''t1'' None None None
        (Some (JsObject None [(''n1'', supernode ''n1'' [] [])])) (Some [''n1''])
        (Some \<lparr>role = ''assistant'', name = None\<rparr>) None
        (Some \<lparr>content_type = ''multimodal_text'',
               parts = Some [ObjectPart ''file-service://i1'', StringPart ''Here it is''],
               ctext = None\<rparr>)
        (Some \<lparr>attachments = None, aggregate_result = None\<rparr>)))"
    by (simp add: dalleNode_def mergeSubsequentAssistantMessages_def supernode_def
        deleteBaseCase_def getProp_def setProp_def deleteProp_def withChildren_def)
  ultimately show ?thesis by simp
qed

end
